theory Spec2Isabelle
  imports Complex_Main
begin


section \<open>Overview\<close>

text \<open>
  The source file \<^verbatim>\<open>private_gpt/settings/settings.py\<close> declares the settings schema as
  pydantic models, and at module level loads the active settings and binds them:
  \<^verbatim>\<open>unsafe_settings = load_active_settings()\<close>,
  \<^verbatim>\<open>unsafe_typed_settings = Settings(**unsafe_settings)\<close>. The function \<^verbatim>\<open>settings()\<close>
  returns what the injector holds for \<^verbatim>\<open>Settings\<close>.

  The classes are embedded as data, one class description per class and one field
  description per field, in source order. What \<^verbatim>\<open>Settings(**raw)\<close> does with them is
  pydantic's validation of a mapping against a model, in the configuration the source uses
  (the library defaults: lax coercion, keys that are not declared are ignored, defaults are not
  validated, all errors are collected). That library is not part of the repository; the
  function \<open>validate\<close> below writes its behaviour out, with the numeric conversions of
  scalars left as a parameter.
\<close>

section \<open>Raw configuration values and bound values\<close>

text \<open>
  A Python float: a finite value, given by the rational it denotes, or one of the special
  values a YAML document can hold.
\<close>

datatype pyfloat = Finite rat | PosInf | NegInf | NaN

text \<open>
  What the loader hands over: YAML scalars, sequences, and mappings with string keys. A
  mapping is an association list read with \<open>map_of\<close>, so the first entry of a key counts.
\<close>

datatype raw = RNone | RBool bool | RInt int | RFloat pyfloat | RStr string
  | RList "raw list" | RMap "(string \<times> raw) list"

text \<open>
  Bound values. Lists and model instances are the objects Python can change in place; each
  carries the identity it was allocated with (\<^verbatim>\<open>id(obj)\<close>). Two nodes with the same
  identity are the same object, and trees whose identities are disjoint share nothing. Scalars
  are immutable and carry no identity. A model instance holds its class name and its
  attributes in field order.
\<close>

type_synonym obj_id = nat

datatype pval = PNone | PBool bool | PInt int | PFloat pyfloat | PStr string
  | PList obj_id "pval list" | PModel obj_id string "(string \<times> pval) list"

text \<open>
  One entry of a \<^verbatim>\<open>ValidationError\<close>: the location (keys and list indices from the root)
  and the kind of the violation, named after pydantic's error types.
\<close>

datatype loc_item = Key string | Idx nat

datatype err_type = Missing | LiteralError "string list" | StringType | IntType
  | IntParsing | IntParsingSize | IntFromFloat | FiniteNumber | BoolType | BoolParsing | FloatType
  | FloatParsing | ListType | ModelType string

datatype verr = VErr "loc_item list" err_type

text \<open>
  The declared type of a field, and what a field declares for the case that its key is
  absent: nothing (\<open>Required\<close>), a default value (\<open>Default v\<close> for
  \<^verbatim>\<open>Field(default=v)\<close> or \<^verbatim>\<open>= v\<close>; the object \<open>v\<close> was created once, when the class
  body ran), or a factory (\<open>DefaultFactory c kwargs\<close> for
  \<^verbatim>\<open>Field(default_factory=lambda: c(**kwargs))\<close>, called at each construction).
  \<open>TLiteral\<close> is \<^verbatim>\<open>Literal[...]\<close> over strings, \<open>TOptional T\<close> is \<^verbatim>\<open>T | None\<close>,
  \<open>TListStr\<close> is \<^verbatim>\<open>list[str]\<close>.
\<close>

datatype ftype = TStr | TInt | TBool | TFloat | TListStr | TLiteral "string list"
  | TModel cls | TOptional ftype
and cls = Cls string "fld list"
and fld = Fld string ftype dflt
and dflt = Required | Default pval | DefaultFactory cls "(string \<times> raw) list"

text \<open>
  The identities of all objects of a tree.
\<close>

fun ids :: "pval \<Rightarrow> obj_id set" where
  "ids (PList a xs) = insert a (\<Union>x \<in> set xs. ids x)"
| "ids (PModel a c kvs) = insert a (\<Union>kv \<in> set kvs. ids (snd kv))"
| "ids _ = {}"

text \<open>
  \<^verbatim>\<open>copy.deepcopy\<close>: the second argument is the next free identity; every object of the copy
  is new.
\<close>

fun deepcopy :: "pval \<Rightarrow> obj_id \<Rightarrow> pval \<times> obj_id"
and deepcopy_items :: "pval list \<Rightarrow> obj_id \<Rightarrow> pval list \<times> obj_id"
and deepcopy_attrs :: "(string \<times> pval) list \<Rightarrow> obj_id \<Rightarrow> (string \<times> pval) list \<times> obj_id" where
  "deepcopy (PList a xs) n = (case deepcopy_items xs (Suc n) of (ys, n') \<Rightarrow> (PList n ys, n'))"
| "deepcopy (PModel a c kvs) n = (case deepcopy_attrs kvs (Suc n) of (kvs', n') \<Rightarrow> (PModel n c kvs', n'))"
| "deepcopy v n = (v, n)"
| "deepcopy_items [] n = ([], n)"
| "deepcopy_items (x # xs) n =
     (case deepcopy x n of (y, n1) \<Rightarrow> case deepcopy_items xs n1 of (ys, n2) \<Rightarrow> (y # ys, n2))"
| "deepcopy_attrs [] n = ([], n)"
| "deepcopy_attrs ((k, x) # kvs) n =
     (case deepcopy x n of (y, n1) \<Rightarrow> case deepcopy_attrs kvs n1 of (kvs', n2) \<Rightarrow> ((k, y) # kvs', n2))"


subsection \<open>Leaf validators\<close>

text \<open>
  A scalar of the field's own type is bound as it is. For a scalar of another type the
  library converts in lax mode: a float or a string for an \<^verbatim>\<open>int\<close> field, an integer or a
  string for a \<^verbatim>\<open>float\<close> field. Which floats are whole and in range, how an integer is
  rounded to a double, and which strings are numerals is decided inside the library, by
  nothing in the repository. These four conversions are therefore a parameter, the table
  \<open>L\<close>: each gives the converted value or the kind of the error. Every statement below is
  for an arbitrary table, hence for the library's.
\<close>

record coercions =
  int_of_float :: "pyfloat \<Rightarrow> err_type + int"
  int_of_str :: "string \<Rightarrow> err_type + int"
  float_of_int :: "int \<Rightarrow> err_type + pyfloat"
  float_of_str :: "string \<Rightarrow> err_type + pyfloat"

text \<open>
  A table that converts nothing. It stands in where a closed example needs a table; the
  examples hold, for every scalar field, a value of the field's own type, so that no table is
  consulted and the result is the same under every table.
\<close>

definition no_coercion :: coercions where
  "no_coercion =
     \<lparr>int_of_float = (\<lambda>f. Inl IntType), int_of_str = (\<lambda>s. Inl IntParsing),
      float_of_int = (\<lambda>i. Inl FloatType), float_of_str = (\<lambda>s. Inl FloatParsing)\<rparr>"

definition lower_char :: "char \<Rightarrow> char" where
  "lower_char c = (let k = (of_char c :: nat) in if 65 \<le> k \<and> k \<le> 90 then char_of (k + 32) else c)"

definition str_as_bool :: "string \<Rightarrow> bool option" where
  "str_as_bool s =
     (let l = map lower_char s in
      if l \<in> set [''1'', ''on'', ''t'', ''true'', ''y'', ''yes''] then Some True
      else if l \<in> set [''0'', ''off'', ''f'', ''false'', ''n'', ''no''] then Some False
      else None)"

text \<open>
  A failed validation is the list of its errors; a validator that fails by itself reports one
  error at the empty location, and the enclosing model or list puts its key or index in front.
\<close>

definition fail :: "err_type \<Rightarrow> verr list + 'a" where
  "fail t = Inl [VErr [] t]"

definition converted :: "('a \<Rightarrow> pval) \<Rightarrow> err_type + 'a \<Rightarrow> verr list + pval" where
  "converted mk c = (case c of Inl t \<Rightarrow> fail t | Inr x \<Rightarrow> Inr (mk x))"

fun validate_str :: "raw \<Rightarrow> verr list + pval" where
  "validate_str (RStr s) = Inr (PStr s)"
| "validate_str _ = fail StringType"

fun validate_int :: "coercions \<Rightarrow> raw \<Rightarrow> verr list + pval" where
  "validate_int L (RInt i) = Inr (PInt i)"
| "validate_int L (RBool b) = Inr (PInt (if b then 1 else 0))"
| "validate_int L (RFloat f) = converted PInt (int_of_float L f)"
| "validate_int L (RStr s) = converted PInt (int_of_str L s)"
| "validate_int L _ = fail IntType"

text \<open>
  An integer for a \<^verbatim>\<open>bool\<close> field must be 0 or 1. A float is first converted to an integer;
  where that conversion fails the value is not a boolean at all.
\<close>

definition int_as_bool :: "int \<Rightarrow> verr list + pval" where
  "int_as_bool i =
     (if i = 0 then Inr (PBool False) else if i = 1 then Inr (PBool True) else fail BoolParsing)"

fun validate_bool :: "coercions \<Rightarrow> raw \<Rightarrow> verr list + pval" where
  "validate_bool L (RBool b) = Inr (PBool b)"
| "validate_bool L (RInt i) = int_as_bool i"
| "validate_bool L (RFloat f) =
     (case int_of_float L f of Inl t \<Rightarrow> fail BoolType | Inr i \<Rightarrow> int_as_bool i)"
| "validate_bool L (RStr s) = (case str_as_bool s of Some b \<Rightarrow> Inr (PBool b) | None \<Rightarrow> fail BoolParsing)"
| "validate_bool L _ = fail BoolType"

fun validate_float :: "coercions \<Rightarrow> raw \<Rightarrow> verr list + pval" where
  "validate_float L (RFloat f) = Inr (PFloat f)"
| "validate_float L (RInt i) = converted PFloat (float_of_int L i)"
| "validate_float L (RBool b) = Inr (PFloat (Finite (if b then 1 else 0)))"
| "validate_float L (RStr s) = converted PFloat (float_of_str L s)"
| "validate_float L _ = fail FloatType"

definition validate_literal :: "string list \<Rightarrow> raw \<Rightarrow> verr list + pval" where
  "validate_literal allowed r =
     (case r of
        RStr s \<Rightarrow> if s \<in> set allowed then Inr (PStr s) else fail (LiteralError allowed)
      | _ \<Rightarrow> fail (LiteralError allowed))"

fun at_loc :: "loc_item \<Rightarrow> verr \<Rightarrow> verr" where
  "at_loc k (VErr loc t) = VErr (k # loc) t"

fun validate_items :: "raw list \<Rightarrow> nat \<Rightarrow> verr list + pval list" where
  "validate_items [] i = Inr []"
| "validate_items (r # rs) i =
     (case (validate_str r, validate_items rs (Suc i)) of
        (Inr v, Inr vs) \<Rightarrow> Inr (v # vs)
      | (Inl es, Inr vs) \<Rightarrow> Inl (map (at_loc (Idx i)) es)
      | (Inr v, Inl es') \<Rightarrow> Inl es'
      | (Inl es, Inl es') \<Rightarrow> Inl (map (at_loc (Idx i)) es @ es'))"

text \<open>
  A default given by value is handed out as it is when it is hashable, and as a deep copy
  otherwise, so that instances do not share a mutable default. Lists and model instances (which
  define equality and are not frozen) are not hashable.
\<close>

fun hashable :: "pval \<Rightarrow> bool" where
  "hashable (PList a xs) = False"
| "hashable (PModel a c kvs) = False"
| "hashable _ = True"

definition copy_default :: "pval \<Rightarrow> obj_id \<Rightarrow> pval \<times> obj_id" where
  "copy_default d n = (if hashable d then (d, n) else deepcopy d n)"

fun fld_name :: "fld \<Rightarrow> string" where
  "fld_name (Fld name T d) = name"

fun combine :: "string \<Rightarrow> verr list + pval \<Rightarrow> verr list + (string \<times> pval) list
    \<Rightarrow> verr list + (string \<times> pval) list" where
  "combine k (Inr v) (Inr kvs) = Inr ((k, v) # kvs)"
| "combine k (Inl es) (Inr kvs) = Inl es"
| "combine k (Inr v) (Inl es') = Inl es'"
| "combine k (Inl es) (Inl es') = Inl (es @ es')"

fun under :: "string \<Rightarrow> verr list + pval \<Rightarrow> verr list + pval" where
  "under k (Inl es) = Inl (map (at_loc (Key k)) es)"
| "under k (Inr v) = Inr v"

text \<open>
  \<open>validate L T r n\<close> binds the raw value \<open>r\<close> against the type \<open>T\<close>, with \<open>L\<close>
  the table of scalar conversions and \<open>n\<close> the next free identity; it returns the errors or the bound value, and the next free identity.
  A model binds its fields in order and collects the errors of all of them; a field whose key
  is present is validated against its type, with its errors under the field's name; a field
  whose key is absent reports \<open>Missing\<close>, or takes its default, or calls its factory.
\<close>

fun validate :: "coercions \<Rightarrow> ftype \<Rightarrow> raw \<Rightarrow> obj_id \<Rightarrow> (verr list + pval) \<times> obj_id"
and validate_fields :: "coercions \<Rightarrow> fld list \<Rightarrow> (string \<times> raw) list \<Rightarrow> obj_id
    \<Rightarrow> (verr list + (string \<times> pval) list) \<times> obj_id"
and validate_field :: "coercions \<Rightarrow> fld \<Rightarrow> (string \<times> raw) list \<Rightarrow> obj_id
    \<Rightarrow> (verr list + pval) \<times> obj_id" where
  "validate L TStr r n = (validate_str r, n)"
| "validate L TInt r n = (validate_int L r, n)"
| "validate L TBool r n = (validate_bool L r, n)"
| "validate L TFloat r n = (validate_float L r, n)"
| "validate L (TLiteral allowed) r n = (validate_literal allowed r, n)"
| "validate L TListStr r n =
     (case r of
        RList rs \<Rightarrow>
          (case validate_items rs 0 of
             Inl es \<Rightarrow> (Inl es, n)
           | Inr vs \<Rightarrow> (Inr (PList n vs), Suc n))
      | _ \<Rightarrow> (fail ListType, n))"
| "validate L (TOptional T) r n = (if r = RNone then (Inr PNone, n) else validate L T r n)"
| "validate L (TModel (Cls cname fs)) r n =
     (case r of
        RMap m \<Rightarrow>
          (case validate_fields L fs m n of
             (Inl es, n') \<Rightarrow> (Inl es, n')
           | (Inr kvs, n') \<Rightarrow> (Inr (PModel n' cname kvs), Suc n'))
      | _ \<Rightarrow> (fail (ModelType cname), n))"
| "validate_fields L [] m n = (Inr [], n)"
| "validate_fields L (f # fs) m n =
     (case validate_field L f m n of
        (r1, n1) \<Rightarrow>
          (case validate_fields L fs m n1 of
             (r2, n2) \<Rightarrow> (combine (fld_name f) r1 r2, n2)))"
| "validate_field L (Fld name T Required) m n =
     (case map_of m name of
        Some rv \<Rightarrow> (case validate L T rv n of (res, n') \<Rightarrow> (under name res, n'))
      | None \<Rightarrow> (Inl [VErr [Key name] Missing], n))"
| "validate_field L (Fld name T (Default d)) m n =
     (case map_of m name of
        Some rv \<Rightarrow> (case validate L T rv n of (res, n') \<Rightarrow> (under name res, n'))
      | None \<Rightarrow> (case copy_default d n of (v, n') \<Rightarrow> (Inr v, n')))"
| "validate_field L (Fld name T (DefaultFactory c kwargs)) m n =
     (case map_of m name of
        Some rv \<Rightarrow> (case validate L T rv n of (res, n') \<Rightarrow> (under name res, n'))
      | None \<Rightarrow> validate L (TModel c) (RMap kwargs) n)"


section \<open>The schema of \<^verbatim>\<open>settings.py\<close>\<close>

text \<open>
  The classes in source order. When the body of \<^verbatim>\<open>CorsSettings\<close> runs, its three list
  literals are created: identities 0, 1 and 2.
\<close>

definition CorsSettings :: cls where
  "CorsSettings = Cls ''CorsSettings''
     [Fld ''enabled'' TBool (Default (PBool False)),
      Fld ''allow_credentials'' TBool (Default (PBool False)),
      Fld ''allow_origins'' TListStr (Default (PList 0 [])),
      Fld ''allow_origin_regex'' TListStr (Default PNone),
      Fld ''allow_methods'' TListStr (Default (PList 1 [PStr ''GET''])),
      Fld ''allow_headers'' TListStr (Default (PList 2 []))]"

definition BasicAuthSettings :: cls where
  "BasicAuthSettings = Cls ''BasicAuthSettings''
     [Fld ''enabled'' TBool (Default (PBool False)),
      Fld ''secret'' TStr Required]"

definition JWTAuthSettings :: cls where
  "JWTAuthSettings = Cls ''JWTAuthSettings''
     [Fld ''enabled'' TBool (Default (PBool False)),
      Fld ''jwks_url'' TStr Required,
      Fld ''ingest_claim'' TStr (Default (PStr ''ingest'')),
      Fld ''user_id_claim'' TStr (Default (PStr ''sub'')),
      Fld ''audience'' TStr (Default (PStr ''privateGPT''))]"

text \<open>
  The constructor call \<^verbatim>\<open>c(**kwargs)\<close>.
\<close>

definition new :: "coercions \<Rightarrow> cls \<Rightarrow> (string \<times> raw) list \<Rightarrow> obj_id
    \<Rightarrow> (verr list + pval) \<times> obj_id" where
  "new L c kwargs n = validate L (TModel c) (RMap kwargs) n"

text \<open>
  The default of \<^verbatim>\<open>ServerSettings.cors\<close> is the value of \<^verbatim>\<open>CorsSettings(enabled=False)\<close>,
  evaluated once, when the body of \<^verbatim>\<open>ServerSettings\<close> runs; the next free identity is 3
  then. (The call succeeds, with the same value under every table: lemma \<open>cors_default_new\<close>.)
\<close>

definition cors_default :: pval where
  "cors_default = projr (fst (new no_coercion CorsSettings [(''enabled'', RBool False)] 3))"

definition ServerSettings :: cls where
  "ServerSettings = Cls ''ServerSettings''
     [Fld ''env_name'' TStr Required,
      Fld ''port'' TInt Required,
      Fld ''cors'' (TModel CorsSettings) (Default cors_default),
      Fld ''basic_auth'' (TModel BasicAuthSettings)
        (DefaultFactory BasicAuthSettings
           [(''enabled'', RBool False), (''secret'', RStr ''secret-key'')]),
      Fld ''jwt_auth'' (TModel JWTAuthSettings)
        (DefaultFactory JWTAuthSettings
           [(''enabled'', RBool False),
            (''jwks_url'', RStr ''https://example.com/.well-known/jwks.json'')])]"

definition DataSettings :: cls where
  "DataSettings = Cls ''DataSettings'' [Fld ''local_data_folder'' TStr Required]"

definition LLMSettings :: cls where
  "LLMSettings = Cls ''LLMSettings''
     [Fld ''mode'' (TLiteral [''local'', ''openai'', ''sagemaker'', ''mock'']) Required]"

definition VectorstoreSettings :: cls where
  "VectorstoreSettings = Cls ''VectorstoreSettings''
     [Fld ''database'' (TLiteral [''chroma'', ''qdrant'']) Required,
      Fld ''collection_name'' TStr (Default (PStr ''privateGPT''))]"

definition RedisSettings :: cls where
  "RedisSettings = Cls ''RedisSettings''
     [Fld ''host'' TStr (Default (PStr ''redis'')),
      Fld ''port'' TInt (Default (PInt 6379))]"

definition DynamoDBSettings :: cls where
  "DynamoDBSettings = Cls ''DynamoDBSettings''
     [Fld ''table_name'' TStr (Default (PStr ''dummy_table''))]"

definition DocumentstoreSettings :: cls where
  "DocumentstoreSettings = Cls ''DocumentstoreSettings''
     [Fld ''database'' (TLiteral [''disk'', ''redis'', ''dynamodb'']) (Default (PStr ''disk'')),
      Fld ''namespace'' TStr (Default (PStr ''private_gpt_documents'')),
      Fld ''redis'' (TModel RedisSettings)
        (DefaultFactory RedisSettings [(''host'', RStr ''redis''), (''port'', RInt 6379)]),
      Fld ''dynamodb'' (TModel DynamoDBSettings)
        (DefaultFactory DynamoDBSettings [(''table_name'', RStr ''dummy_table'')])]"

definition IndexstoreSettings :: cls where
  "IndexstoreSettings = Cls ''IndexstoreSettings''
     [Fld ''database'' (TLiteral [''disk'', ''redis'', ''dynamodb'']) (Default (PStr ''disk'')),
      Fld ''namespace'' TStr (Default (PStr ''private_gpt_index'')),
      Fld ''redis'' (TModel RedisSettings)
        (DefaultFactory RedisSettings [(''host'', RStr ''redis''), (''port'', RInt 6379)]),
      Fld ''dynamodb'' (TModel DynamoDBSettings)
        (DefaultFactory DynamoDBSettings [(''table_name'', RStr ''dummy_table'')])]"

definition LocalSettings :: cls where
  "LocalSettings = Cls ''LocalSettings''
     [Fld ''llm_hf_repo_id'' TStr Required,
      Fld ''llm_hf_model_file'' TStr Required,
      Fld ''embedding_hf_model_name'' TStr Required]"

definition SagemakerSettings :: cls where
  "SagemakerSettings = Cls ''SagemakerSettings''
     [Fld ''llm_endpoint_name'' TStr Required,
      Fld ''embedding_endpoint_name'' TStr Required]"

definition OpenAISettings :: cls where
  "OpenAISettings = Cls ''OpenAISettings'' [Fld ''api_key'' TStr Required]"

definition UISettings :: cls where
  "UISettings = Cls ''UISettings''
     [Fld ''enabled'' TBool Required,
      Fld ''path'' TStr Required]"

definition QdrantSettings :: cls where
  "QdrantSettings = Cls ''QdrantSettings''
     [Fld ''location'' (TOptional TStr) (Default PNone),
      Fld ''url'' (TOptional TStr) (Default PNone),
      Fld ''port'' (TOptional TInt) (Default (PInt 6333)),
      Fld ''grpc_port'' (TOptional TInt) (Default (PInt 6334)),
      Fld ''prefer_grpc'' (TOptional TBool) (Default (PBool False)),
      Fld ''https'' (TOptional TBool) (Default PNone),
      Fld ''api_key'' (TOptional TStr) (Default PNone),
      Fld ''prefix'' (TOptional TStr) (Default PNone),
      Fld ''timeout'' (TOptional TFloat) (Default PNone),
      Fld ''host'' (TOptional TStr) (Default PNone),
      Fld ''path'' (TOptional TStr) (Default PNone),
      Fld ''force_disable_check_same_thread'' (TOptional TBool) (Default (PBool True))]"

definition Settings :: cls where
  "Settings = Cls ''Settings''
     [Fld ''server'' (TModel ServerSettings) Required,
      Fld ''data'' (TModel DataSettings) Required,
      Fld ''ui'' (TModel UISettings) Required,
      Fld ''llm'' (TModel LLMSettings) Required,
      Fld ''local'' (TModel LocalSettings) Required,
      Fld ''sagemaker'' (TModel SagemakerSettings) Required,
      Fld ''openai'' (TModel OpenAISettings) Required,
      Fld ''vectorstore'' (TModel VectorstoreSettings) Required,
      Fld ''indexstore'' (TModel IndexstoreSettings) Required,
      Fld ''documentstore'' (TModel DocumentstoreSettings) Required,
      Fld ''qdrant'' (TOptional (TModel QdrantSettings)) (Default PNone)]"

text \<open>
  The first identity that is free when all class bodies have run.
\<close>

definition module_next :: obj_id where
  "module_next = 7"

text \<open>
  Attribute access, and access along a path of attribute names.
\<close>

fun getattr :: "pval \<Rightarrow> string \<Rightarrow> pval option" where
  "getattr (PModel a c kvs) name = map_of kvs name"
| "getattr _ name = None"

fun getp :: "pval \<Rightarrow> string list \<Rightarrow> pval option" where
  "getp v [] = Some v"
| "getp v (name # path) = (case getattr v name of None \<Rightarrow> None | Some w \<Rightarrow> getp w path)"

section \<open>Reading results\<close>

text \<open>
  The errors of a result (none for a success), and the result seen as a failure or not.
\<close>

fun errors :: "verr list + 'a \<Rightarrow> verr list" where
  "errors (Inl es) = es"
| "errors (Inr v) = []"

fun outcome :: "verr list + 'a \<Rightarrow> verr list option" where
  "outcome (Inl es) = Some es"
| "outcome (Inr v) = None"

fun cls_fields :: "cls \<Rightarrow> fld list" where
  "cls_fields (Cls cname fs) = fs"

fun fld_dflt :: "fld \<Rightarrow> dflt" where
  "fld_dflt (Fld name T d) = d"

fun fld_type :: "fld \<Rightarrow> ftype" where
  "fld_type (Fld name T d) = T"

fun lookup_fld :: "fld list \<Rightarrow> string \<Rightarrow> fld option" where
  "lookup_fld [] name = None"
| "lookup_fld (f # fs) name = (if fld_name f = name then Some f else lookup_fld fs name)"

fun model_of :: "ftype \<Rightarrow> cls option" where
  "model_of (TModel c) = Some c"
| "model_of (TOptional T) = model_of T"
| "model_of _ = None"

text \<open>
  \<open>required_absent c r path\<close>: along \<open>path\<close>, the raw value \<open>r\<close> holds a mapping for
  each group, and the mapping of the last group has no key for the last name, a field that
  its class declares without a default.
\<close>

fun required_absent :: "cls \<Rightarrow> raw \<Rightarrow> string list \<Rightarrow> bool" where
  "required_absent c r [] = False"
| "required_absent c r (name # path) =
     (case r of
        RMap m \<Rightarrow>
          (case lookup_fld (cls_fields c) name of
             None \<Rightarrow> False
           | Some f \<Rightarrow>
               (case map_of m name of
                  None \<Rightarrow> path = [] \<and> fld_dflt f = Required
                | Some rv \<Rightarrow>
                    (case model_of (fld_type f) of
                       None \<Rightarrow> False
                     | Some c' \<Rightarrow> required_absent c' rv path)))
      | _ \<Rightarrow> False)"

section \<open>In-place mutation of an object\<close>

text \<open>
  An in-place change \<open>g\<close> of the object with identity \<open>a\<close>, as seen in a tree that may
  or may not hold the object: \<open>setattr\<close> is the assignment \<^verbatim>\<open>obj.name = v\<close>,
  \<open>list_append\<close> is \<^verbatim>\<open>obj.append(x)\<close>.
\<close>

fun mutate :: "obj_id \<Rightarrow> (pval \<Rightarrow> pval) \<Rightarrow> pval \<Rightarrow> pval" where
  "mutate a g (PList b xs) =
     (if a = b then g (PList b xs) else PList b (map (mutate a g) xs))"
| "mutate a g (PModel b c kvs) =
     (if a = b then g (PModel b c kvs)
      else PModel b c (map (\<lambda>kv. (fst kv, mutate a g (snd kv))) kvs))"
| "mutate a g v = v"

fun assign_attr :: "string \<Rightarrow> pval \<Rightarrow> pval \<Rightarrow> pval" where
  "assign_attr name v (PModel b c kvs) = PModel b c (map (\<lambda>kv. if fst kv = name then (name, v) else kv) kvs)"
| "assign_attr name v w = w"

definition setattr :: "obj_id \<Rightarrow> string \<Rightarrow> pval \<Rightarrow> pval \<Rightarrow> pval" where
  "setattr a name v world = mutate a (assign_attr name v) world"

fun append_item :: "pval \<Rightarrow> pval \<Rightarrow> pval" where
  "append_item x (PList b xs) = PList b (xs @ [x])"
| "append_item x w = w"

definition list_append :: "obj_id \<Rightarrow> pval \<Rightarrow> pval \<Rightarrow> pval" where
  "list_append a x world = mutate a (append_item x) world"

text \<open>
  The identities of the default objects a class holds, directly or through the classes of
  its fields: the objects the class bodies created.
\<close>

fun type_ids :: "ftype \<Rightarrow> obj_id set"
and cls_ids :: "cls \<Rightarrow> obj_id set"
and fld_ids :: "fld \<Rightarrow> obj_id set"
and dflt_ids :: "dflt \<Rightarrow> obj_id set" where
  "type_ids (TModel c) = cls_ids c"
| "type_ids (TOptional T) = type_ids T"
| "type_ids _ = {}"
| "cls_ids (Cls cname fs) = (\<Union>f \<in> set fs. fld_ids f)"
| "fld_ids (Fld name T d) = type_ids T \<union> dflt_ids d"
| "dflt_ids Required = {}"
| "dflt_ids (Default d) = ids d"
| "dflt_ids (DefaultFactory c kwargs) = cls_ids c"

definition class_default_ids :: "obj_id set" where
  "class_default_ids = cls_ids Settings"

section \<open>Merging layers\<close>

text \<open>
  Modelled from the spec: the Merge Engine (section 4.4 of the specification), whose code
  (\<^verbatim>\<open>settings_loader.py\<close>) is not among the sources. The layers are folded from the left
  into an empty mapping; where both sides hold a mapping at a key the children are merged,
  otherwise the later value replaces the earlier one.
\<close>

fun upsert :: "string \<Rightarrow> raw \<Rightarrow> (string \<times> raw) list \<Rightarrow> (string \<times> raw) list" where
  "upsert k v [] = [(k, v)]"
| "upsert k v ((k', v') # kvs) = (if k = k' then (k, v) # kvs else (k', v') # upsert k v kvs)"

fun deep_update :: "(string \<times> raw) list \<Rightarrow> (string \<times> raw) list \<Rightarrow> (string \<times> raw) list" where
  "deep_update acc [] = acc"
| "deep_update acc ((k, RMap b) # layer) =
     deep_update
       (upsert k (case map_of acc k of Some (RMap a) \<Rightarrow> RMap (deep_update a b) | _ \<Rightarrow> RMap b) acc)
       layer"
| "deep_update acc ((k, v) # layer) = deep_update (upsert k v acc) layer"

definition merge_settings :: "(string \<times> raw) list list \<Rightarrow> (string \<times> raw) list" where
  "merge_settings layers = foldl deep_update [] layers"

text \<open>
  The two layers of the end-to-end example of the specification. The values it elides for
  the \<open>local\<close> and \<open>sagemaker\<close> groups are parameters.
\<close>

definition base_layer :: "string \<Rightarrow> string \<Rightarrow> string \<Rightarrow> string \<Rightarrow> string \<Rightarrow> (string \<times> raw) list" where
  "base_layer repo file emb llm_ep emb_ep =
     [(''server'', RMap [(''env_name'', RStr ''prod''), (''port'', RInt 8001)]),
      (''llm'', RMap [(''mode'', RStr ''mock'')]),
      (''vectorstore'', RMap [(''database'', RStr ''chroma'')]),
      (''documentstore'', RMap [(''database'', RStr ''disk'')]),
      (''indexstore'', RMap [(''database'', RStr ''disk'')]),
      (''data'', RMap [(''local_data_folder'', RStr ''/data'')]),
      (''ui'', RMap [(''enabled'', RBool True), (''path'', RStr ''/'')]),
      (''local'', RMap [(''llm_hf_repo_id'', RStr repo), (''llm_hf_model_file'', RStr file),
                        (''embedding_hf_model_name'', RStr emb)]),
      (''sagemaker'', RMap [(''llm_endpoint_name'', RStr llm_ep),
                            (''embedding_endpoint_name'', RStr emb_ep)]),
      (''openai'', RMap [(''api_key'', RStr '''')])]"

definition overlay_layer :: "(string \<times> raw) list" where
  "overlay_layer =
     [(''server'', RMap [(''port'', RInt 9000)]),
      (''documentstore'',
         RMap [(''database'', RStr ''redis''),
               (''redis'', RMap [(''host'', RStr ''myredis''), (''port'', RInt 6380)])])]"

section \<open>The module body and the accessor\<close>

text \<open>
  The state of a process, as far as the module is concerned: the next free identity, how
  often the load pipeline has run, the module's \<^verbatim>\<open>unsafe_typed_settings\<close>, bound once
  the module body has run to its end (the module is then registered, and a later import does
  not run the body again), the instance the injector holds for the key \<^verbatim>\<open>Settings\<close>, and
  the import lock of the module: the thread that is running the module body, with the
  mapping that line 258 has bound to \<^verbatim>\<open>unsafe_settings\<close> once that line has run.
\<close>

datatype startup_error = LoadFailed string | ValidationError "verr list"

type_synonym thread = nat

record process =
  next_id :: obj_id
  loads :: nat
  unsafe_typed_settings :: "pval option"
  global_injector :: "pval option"
  importing :: "(thread \<times> (string \<times> raw) list option) option"

definition boot :: process where
  "boot = \<lparr>next_id = 0, loads = 0, unsafe_typed_settings = None, global_injector = None,
           importing = None\<rparr>"

text \<open>
  Importing \<^verbatim>\<open>private_gpt.settings.settings\<close> and reading its \<^verbatim>\<open>unsafe_typed_settings\<close>.
  \<^verbatim>\<open>load_active_settings\<close> comes from \<^verbatim>\<open>settings_loader.py\<close>, which is not among the
  sources: its outcome, an error or the merged mapping, is the second argument. A registered
  module is not run again. Otherwise the body runs: the class bodies (their objects have the
  identities below \<open>module_next\<close>), the load, and the construction of \<^verbatim>\<open>Settings\<close>. An
  exception leaves the module unregistered, so that the next import runs the body again (its
  class bodies then build equal classes; the model keeps the identities of their default
  objects).
\<close>

definition import_module :: "coercions \<Rightarrow> string + (string \<times> raw) list \<Rightarrow> process
    \<Rightarrow> (startup_error + pval) \<times> process" where
  "import_module L load_active_settings p =
     (case unsafe_typed_settings p of
        Some s \<Rightarrow> (Inr s, p)
      | None \<Rightarrow>
          (let p1 = p\<lparr>loads := loads p + 1\<rparr> in
           case load_active_settings of
             Inl msg \<Rightarrow> (Inl (LoadFailed msg), p1)
           | Inr unsafe_settings \<Rightarrow>
               (case new L Settings unsafe_settings (max module_next (next_id p1)) of
                  (Inl es, k) \<Rightarrow> (Inl (ValidationError es), p1\<lparr>next_id := k\<rparr>)
                | (Inr s, k) \<Rightarrow> (Inr s, p1\<lparr>next_id := k, unsafe_typed_settings := Some s\<rparr>))))"

text \<open>
  Modelled from the spec: \<^verbatim>\<open>private_gpt.di\<close> (the injector) is not among the sources. By
  the specification the container is keyed by the \<^verbatim>\<open>Settings\<close> type and caches the
  singleton. The container has a state of its own, \<open>global_injector\<close>: the instance it holds
  for the key. It is created when \<^verbatim>\<open>private_gpt.di\<close> is first imported, which imports the
  settings module and binds the key to the module's \<^verbatim>\<open>unsafe_typed_settings\<close>; from then
  on a resolution returns what the container holds.
\<close>

definition injector_get :: "coercions \<Rightarrow> string + (string \<times> raw) list \<Rightarrow> process
    \<Rightarrow> (startup_error + pval) \<times> process" where
  "injector_get L load_active_settings p =
     (case global_injector p of
        Some s \<Rightarrow> (Inr s, p)
      | None \<Rightarrow>
          (case import_module L load_active_settings p of
             (Inl e, p1) \<Rightarrow> (Inl e, p1)
           | (Inr s, p1) \<Rightarrow> (Inr s, p1\<lparr>global_injector := Some s\<rparr>)))"

text \<open>
  \<^verbatim>\<open>settings()\<close>: the function is an attribute of the settings module, so calling it
  starts with the import of the module; its body is \<^verbatim>\<open>return global_injector.get(Settings)\<close>.
\<close>

definition settings :: "coercions \<Rightarrow> string + (string \<times> raw) list \<Rightarrow> process
    \<Rightarrow> (startup_error + pval) \<times> process" where
  "settings L load_active_settings p =
     (case import_module L load_active_settings p of
        (Inl e, p1) \<Rightarrow> (Inl e, p1)
      | (Inr s, p1) \<Rightarrow> injector_get L load_active_settings p1)"

text \<open>
  What can happen to the module in a process: a plain import (that reads the module's
  \<^verbatim>\<open>unsafe_typed_settings\<close>), a resolution through the injector, a call of \<^verbatim>\<open>settings()\<close>;
  and a sequence of such events.
\<close>

datatype event = ImportModule | ResolveInjector | CallSettings

fun step :: "coercions \<Rightarrow> string + (string \<times> raw) list \<Rightarrow> event \<Rightarrow> process
    \<Rightarrow> (startup_error + pval) \<times> process" where
  "step L env ImportModule p = import_module L env p"
| "step L env ResolveInjector p = injector_get L env p"
| "step L env CallSettings p = settings L env p"

fun run :: "coercions \<Rightarrow> string + (string \<times> raw) list \<Rightarrow> event list \<Rightarrow> process
    \<Rightarrow> (startup_error + pval) list \<times> process" where
  "run L env [] p = ([], p)"
| "run L env (ev # evs) p =
     (case step L env ev p of
        (r, p1) \<Rightarrow> (case run L env evs p1 of (rs, p2) \<Rightarrow> (r # rs, p2)))"

section \<open>Several threads\<close>

text \<open>
  The same events issued by several threads, one step of one thread at a time. The import
  system serialises the module body with the import lock of the module: while a thread runs
  the body, a thread that needs the module waits. \<open>tick L env t ev p\<close> is the next step of
  thread \<open>t\<close>, which is at the event \<open>ev\<close>; it returns the result of the event when the step
  completes it.

    \<^item> The module is registered: the event completes as in \<^const>\<open>step\<close>, which then runs
      no module body.
    \<^item> Nobody holds the import lock: the thread takes it.
    \<^item> Another thread holds it: the thread waits, nothing changes.
    \<^item> The thread holds it and line 258 has not run: \<^verbatim>\<open>load_active_settings()\<close> runs. An
      exception ends the import, releases the lock and is the result of the event;
      otherwise the mapping is bound to \<^verbatim>\<open>unsafe_settings\<close>.
    \<^item> The thread holds it and line 258 has run: line 265 runs. A validation error ends the
      import, releases the lock and is the result of the event; otherwise
      \<^verbatim>\<open>unsafe_typed_settings\<close> is bound, the body is at its end, the module is registered
      and the lock released.
\<close>

definition tick :: "coercions \<Rightarrow> string + (string \<times> raw) list \<Rightarrow> thread \<Rightarrow> event \<Rightarrow> process
    \<Rightarrow> (startup_error + pval) option \<times> process" where
  "tick L load_active_settings t ev p =
     (case unsafe_typed_settings p of
        Some s \<Rightarrow> (case step L load_active_settings ev p of (r, p1) \<Rightarrow> (Some r, p1))
      | None \<Rightarrow>
          (case importing p of
             None \<Rightarrow> (None, p\<lparr>importing := Some (t, None)\<rparr>)
           | Some (holder, stage) \<Rightarrow>
               if holder \<noteq> t then (None, p)
               else
                 (case stage of
                    None \<Rightarrow>
                      (let p1 = p\<lparr>loads := loads p + 1\<rparr> in
                       case load_active_settings of
                         Inl msg \<Rightarrow> (Some (Inl (LoadFailed msg)), p1\<lparr>importing := None\<rparr>)
                       | Inr unsafe_settings \<Rightarrow>
                           (None, p1\<lparr>importing := Some (t, Some unsafe_settings)\<rparr>))
                  | Some unsafe_settings \<Rightarrow>
                      (case new L Settings unsafe_settings (max module_next (next_id p)) of
                         (Inl es, k) \<Rightarrow>
                           (Some (Inl (ValidationError es)), p\<lparr>next_id := k, importing := None\<rparr>)
                       | (Inr s, k) \<Rightarrow>
                           (None, p\<lparr>next_id := k, unsafe_typed_settings := Some s,
                                     importing := None\<rparr>)))))"

text \<open>
  A schedule names, step by step, the thread that moves and the event it is at. The results
  are those of the events that completed, in the order of their completion, each with its
  thread.
\<close>

fun interleave :: "coercions \<Rightarrow> string + (string \<times> raw) list \<Rightarrow> (thread \<times> event) list \<Rightarrow> process
    \<Rightarrow> (thread \<times> (startup_error + pval)) list \<times> process" where
  "interleave L env [] p = ([], p)"
| "interleave L env ((t, ev) # sch) p =
     (case tick L env t ev p of
        (None, p1) \<Rightarrow> interleave L env sch p1
      | (Some r, p1) \<Rightarrow> (case interleave L env sch p1 of (rs, p2) \<Rightarrow> ((t, r) # rs, p2)))"

text \<open>
  \<open>pending p\<close>: a thread is between line 258 and line 265, so that a run of the load
  pipeline has begun whose outcome no event has returned yet.
\<close>

definition pending :: "process \<Rightarrow> nat" where
  "pending p = (case importing p of Some (t, Some kw) \<Rightarrow> 1 | _ \<Rightarrow> 0)"


section \<open>Example inputs\<close>

definition incomplete_example :: "(string \<times> raw) list" where
  "incomplete_example =
     [(''server'', RMap [(''port'', RInt 8001)]),
      (''llm'', RMap [(''mode'', RStr ''mock'')]),
      (''vectorstore'', RMap [(''database'', RStr ''chroma'')]),
      (''documentstore'', RMap []),
      (''indexstore'', RMap []),
      (''data'', RMap []),
      (''ui'', RMap [(''enabled'', RBool True), (''path'', RStr ''/'')]),
      (''local'', RMap [(''llm_hf_repo_id'', RStr ''repo''), (''llm_hf_model_file'', RStr ''file''),
                        (''embedding_hf_model_name'', RStr ''emb'')]),
      (''sagemaker'', RMap [(''llm_endpoint_name'', RStr ''a''),
                            (''embedding_endpoint_name'', RStr ''b'')]),
      (''openai'', RMap [])]"

definition llm_modes :: "string list" where
  "llm_modes = [''local'', ''openai'', ''sagemaker'', ''mock'']"

definition mode_example :: "string \<Rightarrow> (string \<times> raw) list" where
  "mode_example x =
     [(''server'', RMap [(''env_name'', RStr ''prod''), (''port'', RInt 8001)]),
      (''llm'', RMap [(''mode'', RStr x)]),
      (''vectorstore'', RMap [(''database'', RStr ''chroma'')]),
      (''documentstore'', RMap []),
      (''indexstore'', RMap []),
      (''data'', RMap [(''local_data_folder'', RStr ''/data'')]),
      (''ui'', RMap [(''enabled'', RBool True), (''path'', RStr ''/'')]),
      (''local'', RMap [(''llm_hf_repo_id'', RStr ''repo''), (''llm_hf_model_file'', RStr ''file''),
                        (''embedding_hf_model_name'', RStr ''emb'')]),
      (''sagemaker'', RMap [(''llm_endpoint_name'', RStr ''a''),
                            (''embedding_endpoint_name'', RStr ''b'')]),
      (''openai'', RMap [(''api_key'', RStr '''')])]"

text \<open>
  The defaults \<^verbatim>\<open>QdrantSettings\<close> declares, as attribute values.
\<close>

definition qdrant_defaults :: "(string \<times> pval) list" where
  "qdrant_defaults =
     [(''location'', PNone), (''url'', PNone), (''port'', PInt 6333), (''grpc_port'', PInt 6334),
      (''prefer_grpc'', PBool False), (''https'', PNone), (''api_key'', PNone), (''prefix'', PNone),
      (''timeout'', PNone), (''host'', PNone), (''path'', PNone),
      (''force_disable_check_same_thread'', PBool True)]"

definition qdrant_example :: "(string \<times> raw) list" where
  "qdrant_example = mode_example ''mock'' @ [(''qdrant'', RMap [(''url'', RStr ''http://qdrant:6333'')])]"

definition cors_example :: "(string \<times> raw) list" where
  "cors_example =
     (''server'', RMap [(''env_name'', RStr ''prod''), (''port'', RInt 8001),
                        (''cors'', RMap [(''enabled'', RBool True)])])
       # tl (mode_example ''mock'')"

section \<open>Properties of the binder\<close>

lemma outcome_under: "outcome (under k r) = map_option (map (at_loc (Key k))) (outcome r)"
  by (cases r) auto

lemma outcome_combine:
  "outcome (combine k r1 r2) =
     (case (outcome r1, outcome r2) of
        (None, None) \<Rightarrow> None
      | (Some a, None) \<Rightarrow> Some a
      | (None, Some b) \<Rightarrow> Some b
      | (Some a, Some b) \<Rightarrow> Some (a @ b))"
  by (cases r1; cases r2) auto

lemma deepcopy_mono:
  "deepcopy v n = (w, n') \<Longrightarrow> n \<le> n' \<and> ids w \<subseteq> {n..<n'}"
  "deepcopy_items xs n = (ys, n') \<Longrightarrow> n \<le> n' \<and> (\<Union>x \<in> set ys. ids x) \<subseteq> {n..<n'}"
  "deepcopy_attrs kvs n = (kvs', n') \<Longrightarrow> n \<le> n' \<and> (\<Union>kv \<in> set kvs'. ids (snd kv)) \<subseteq> {n..<n'}"
proof (induction v n and xs n and kvs n arbitrary: w n' and ys n' and kvs' n'
    rule: deepcopy_deepcopy_items_deepcopy_attrs.induct)
  case (1 a xs n)
  obtain ys k where a: "deepcopy_items xs (Suc n) = (ys, k)" by (cases "deepcopy_items xs (Suc n)")
  from "1.IH"[OF a] have "Suc n \<le> k" and "(\<Union>x \<in> set ys. ids x) \<subseteq> {Suc n..<k}" by auto
  moreover have "w = PList n ys" and "n' = k" using "1.prems" a by auto
  ultimately show ?case by fastforce
next
  case (2 a c kvs n)
  obtain ys k where a: "deepcopy_attrs kvs (Suc n) = (ys, k)" by (cases "deepcopy_attrs kvs (Suc n)")
  from "2.IH"[OF a] have "Suc n \<le> k" and "(\<Union>kv \<in> set ys. ids (snd kv)) \<subseteq> {Suc n..<k}" by auto
  moreover have "w = PModel n c ys" and "n' = k" using "2.prems" a by auto
  ultimately show ?case by fastforce
next
  case (5 x xs n)
  obtain y n1 where a: "deepcopy x n = (y, n1)" by (cases "deepcopy x n")
  obtain zs n2 where b: "deepcopy_items xs n1 = (zs, n2)" by (cases "deepcopy_items xs n1")
  from "5.IH"(1)[OF a] have a1: "n \<le> n1" and a2: "ids y \<subseteq> {n..<n1}" by auto
  from "5.IH"(2)[OF a[symmetric] b] have b1: "n1 \<le> n2" and b2: "(\<Union>x \<in> set zs. ids x) \<subseteq> {n1..<n2}" by auto
  have c: "ys = y # zs" and d: "n' = n2" using "5.prems" a b by auto
  have "ids y \<subseteq> {n..<n2}" using a2 b1 by fastforce
  moreover have "(\<Union>x \<in> set zs. ids x) \<subseteq> {n..<n2}" using b2 a1 by fastforce
  ultimately show ?case using c d a1 b1 by auto
next
  case (7 k x kvs n)
  obtain y n1 where a: "deepcopy x n = (y, n1)" by (cases "deepcopy x n")
  obtain zs n2 where b: "deepcopy_attrs kvs n1 = (zs, n2)" by (cases "deepcopy_attrs kvs n1")
  from "7.IH"(1)[OF a] have a1: "n \<le> n1" and a2: "ids y \<subseteq> {n..<n1}" by auto
  from "7.IH"(2)[OF a[symmetric] b] have b1: "n1 \<le> n2" and b2: "(\<Union>kv \<in> set zs. ids (snd kv)) \<subseteq> {n1..<n2}" by auto
  have c: "kvs' = (k, y) # zs" and d: "n' = n2" using "7.prems" a b by auto
  have "ids y \<subseteq> {n..<n2}" using a2 b1 by fastforce
  moreover have "(\<Union>kv \<in> set zs. ids (snd kv)) \<subseteq> {n..<n2}" using b2 a1 by fastforce
  ultimately show ?case using c d a1 b1 by auto
qed auto

lemma outcome_indep:
  "outcome (fst (validate L T r n)) = outcome (fst (validate L T r n0))"
  "outcome (fst (validate_fields L fs m n)) = outcome (fst (validate_fields L fs m n0))"
  "outcome (fst (validate_field L f m n)) = outcome (fst (validate_field L f m n0))"
proof (induction L T r n and L fs m n and L f m n arbitrary: n0 and n0 and n0 rule: validate_validate_fields_validate_field.induct)
  case (6 L r n)
  then show ?case by (auto split: raw.splits sum.splits simp: fail_def)
next
  case (7 L T r n)
  show ?case
  proof (cases "r = RNone")
    case True
    then show ?thesis by simp
  next
    case False
    then show ?thesis using "7.IH"[OF False, of n0] by simp
  qed
next
  case (8 L cname fs r n)
  show ?case
  proof (cases r)
    case (RMap m)
    from 8[OF RMap, of n0] show ?thesis using RMap
      by (auto split: prod.splits sum.splits)
  qed (auto simp: fail_def)
next
  case (10 L f fs m n)
  obtain r1 n1 where a: "validate_field L f m n = (r1, n1)" by (cases "validate_field L f m n")
  obtain r1' n1' where b: "validate_field L f m n0 = (r1', n1')" by (cases "validate_field L f m n0")
  obtain r2 n2 where c: "validate_fields L fs m n1 = (r2, n2)" by (cases "validate_fields L fs m n1")
  obtain r2' n2' where d: "validate_fields L fs m n1' = (r2', n2')" by (cases "validate_fields L fs m n1'")
  have "outcome r1 = outcome r1'" using "10.IH"(1)[of n0] a b by simp
  moreover have "outcome r2 = outcome r2'" using "10.IH"(2)[OF a[symmetric], of n1'] c d by simp
  ultimately show ?case using a b c d by (simp add: outcome_combine)
next
  case (11 L name T m n)
  show ?case
  proof (cases "map_of m name")
    case None then show ?thesis by simp
  next
    case (Some rv)
    obtain r1 n1 where a: "validate L T rv n = (r1, n1)" by (cases "validate L T rv n")
    obtain r1' n1' where b: "validate L T rv n0 = (r1', n1')" by (cases "validate L T rv n0")
    have "outcome r1 = outcome r1'" using "11.IH"[OF Some, of n0] a b by simp
    then show ?thesis using Some a b by (simp add: outcome_under)
  qed
next
  case (12 L name T d m n)
  show ?case
  proof (cases "map_of m name")
    case None then show ?thesis by (simp split: prod.splits)
  next
    case (Some rv)
    obtain r1 n1 where a: "validate L T rv n = (r1, n1)" by (cases "validate L T rv n")
    obtain r1' n1' where b: "validate L T rv n0 = (r1', n1')" by (cases "validate L T rv n0")
    have "outcome r1 = outcome r1'" using "12.IH"[OF Some, of n0] a b by simp
    then show ?thesis using Some a b by (simp add: outcome_under)
  qed
next
  case (13 L name T c kwargs m n)
  show ?case
  proof (cases "map_of m name")
    case None then show ?thesis using "13.IH"(1)[OF None, of n0] by simp
  next
    case (Some rv)
    obtain r1 n1 where a: "validate L T rv n = (r1, n1)" by (cases "validate L T rv n")
    obtain r1' n1' where b: "validate L T rv n0 = (r1', n1')" by (cases "validate L T rv n0")
    have "outcome r1 = outcome r1'" using "13.IH"(2)[OF Some, of n0] a b by simp
    then show ?thesis using Some a b by (simp add: outcome_under)
  qed
qed simp_all

lemma validate_items_ids: "validate_items rs i = Inr vs \<Longrightarrow> (\<Union>x \<in> set vs. ids x) = {}"
proof (induction rs arbitrary: i vs)
  case Nil
  then show ?case by simp
next
  case (Cons r rs)
  then show ?case
    by (cases r) (auto split: sum.splits simp: fail_def)
qed

lemma validate_items_nonempty: "validate_items rs i = Inl es \<Longrightarrow> es \<noteq> []"
proof (induction rs arbitrary: i es)
  case Nil
  then show ?case by simp
next
  case (Cons r rs)
  then show ?case
    by (cases r) (auto split: sum.splits simp: fail_def)
qed

lemma copy_default_fresh:
  assumes "copy_default d n = (v, n')"
  shows "n \<le> n' \<and> ids v \<subseteq> {n..<n'}"
proof (cases "hashable d")
  case True
  then have "v = d" and "n' = n" using assms by (auto simp: copy_default_def)
  moreover have "ids d = {}" using True by (cases d) auto
  ultimately show ?thesis by simp
next
  case False
  then have "deepcopy d n = (v, n')" using assms by (simp add: copy_default_def)
  then show ?thesis by (rule deepcopy_mono(1))
qed

lemma validate_fresh:
  "validate L T r n = (res, n') \<Longrightarrow> n \<le> n' \<and> (\<forall>v. res = Inr v \<longrightarrow> ids v \<subseteq> {n..<n'})"
  "validate_fields L fs m n = (fres, n') \<Longrightarrow>
     n \<le> n' \<and> (\<forall>kvs. fres = Inr kvs \<longrightarrow> (\<Union>kv \<in> set kvs. ids (snd kv)) \<subseteq> {n..<n'})"
  "validate_field L f m n = (res, n') \<Longrightarrow> n \<le> n' \<and> (\<forall>v. res = Inr v \<longrightarrow> ids v \<subseteq> {n..<n'})"
proof (induction L T r n and L fs m n and L f m n arbitrary: res n' and fres n' and res n'
    rule: validate_validate_fields_validate_field.induct)
  case (1 L r n)
  then show ?case by (cases r) (auto simp: fail_def)
next
  case (2 L r n)
  then show ?case by (cases r) (auto simp: fail_def converted_def split: sum.splits)
next
  case (3 L r n)
  then show ?case by (cases r) (auto simp: fail_def converted_def int_as_bool_def split: option.splits sum.splits if_splits)
next
  case (4 L r n)
  then show ?case by (cases r) (auto simp: fail_def converted_def int_as_bool_def split: option.splits sum.splits if_splits)
next
  case (5 L allowed r n)
  then show ?case by (cases r) (auto simp: fail_def validate_literal_def split: if_splits)
next
  case (6 L r n)
  then show ?case
    by (cases r) (auto simp: fail_def split: sum.splits dest: validate_items_ids)
next
  case (7 L T r n)
  then show ?case by (auto split: if_splits)
next
  case (8 L cname fs r n)
  show ?case
  proof (cases r)
    case (RMap m)
    obtain fres k where a: "validate_fields L fs m n = (fres, k)" by (cases "validate_fields L fs m n")
    from "8.IH"[OF RMap a] have b: "n \<le> k" and
      c: "\<forall>kvs. fres = Inr kvs \<longrightarrow> (\<Union>kv \<in> set kvs. ids (snd kv)) \<subseteq> {n..<k}" by auto
    show ?thesis
    proof (cases fres)
      case (Inl es)
      then show ?thesis using "8.prems" RMap a b by auto
    next
      case (Inr kvs)
      then have "res = Inr (PModel k cname kvs)" and "n' = Suc k" using "8.prems" RMap a by auto
      moreover have "(\<Union>kv \<in> set kvs. ids (snd kv)) \<subseteq> {n..<k}" using c Inr by simp
      ultimately show ?thesis using b by (auto simp: less_Suc_eq)
    qed
  qed (use "8.prems" in \<open>auto simp: fail_def\<close>)
next
  case (9 L m n)
  then show ?case by auto
next
  case (10 L f fs m n)
  obtain r1 n1 where a: "validate_field L f m n = (r1, n1)" by (cases "validate_field L f m n")
  obtain r2 n2 where c: "validate_fields L fs m n1 = (r2, n2)" by (cases "validate_fields L fs m n1")
  from "10.IH"(1)[OF a] have a1: "n \<le> n1" and a2: "\<forall>v. r1 = Inr v \<longrightarrow> ids v \<subseteq> {n..<n1}" by auto
  from "10.IH"(2)[OF a[symmetric] c] have c1: "n1 \<le> n2"
    and c2: "\<forall>kvs. r2 = Inr kvs \<longrightarrow> (\<Union>kv \<in> set kvs. ids (snd kv)) \<subseteq> {n1..<n2}" by auto
  have e: "fres = combine (fld_name f) r1 r2" and f: "n' = n2" using "10.prems" a c by auto
  show ?case
  proof (cases r1)
    case (Inl es)
    then show ?thesis using e f a1 c1 by (cases r2) auto
  next
    case r1: (Inr v)
    show ?thesis
    proof (cases r2)
      case (Inl es)
      then show ?thesis using e f a1 c1 r1 by auto
    next
      case (Inr kvs)
      have "ids v \<subseteq> {n..<n2}" using a2 r1 c1 by fastforce
      moreover have "(\<Union>kv \<in> set kvs. ids (snd kv)) \<subseteq> {n..<n2}" using c2 Inr a1 by fastforce
      ultimately show ?thesis using e f a1 c1 r1 Inr by auto
    qed
  qed
next
  case (11 L name T m n)
  show ?case
  proof (cases "map_of m name")
    case None then show ?thesis using "11.prems" by auto
  next
    case (Some rv)
    obtain r1 n1 where a: "validate L T rv n = (r1, n1)" by (cases "validate L T rv n")
    from "11.IH"[OF Some a] show ?thesis using "11.prems" Some a by (cases r1) auto
  qed
next
  case (12 L name T d m n)
  show ?case
  proof (cases "map_of m name")
    case None then show ?thesis using "12.prems" by (auto split: prod.splits dest: copy_default_fresh)
  next
    case (Some rv)
    obtain r1 n1 where a: "validate L T rv n = (r1, n1)" by (cases "validate L T rv n")
    from "12.IH"[OF Some a] show ?thesis using "12.prems" Some a by (cases r1) auto
  qed
next
  case (13 L name T c kwargs m n)
  show ?case
  proof (cases "map_of m name")
    case None then show ?thesis using "13.prems" "13.IH"(1)[OF None] by auto
  next
    case (Some rv)
    obtain r1 n1 where a: "validate L T rv n = (r1, n1)" by (cases "validate L T rv n")
    from "13.IH"(2)[OF Some a] show ?thesis using "13.prems" Some a by (cases r1) auto
  qed
qed

subsection \<open>The errors of a model are those of its fields\<close>

lemma errors_outcome: "errors r = (case outcome r of None \<Rightarrow> [] | Some es \<Rightarrow> es)"
  by (cases r) auto

lemma errors_indep:
  "errors (fst (validate L T r n)) = errors (fst (validate L T r n0))"
  "errors (fst (validate_fields L fs m n)) = errors (fst (validate_fields L fs m n0))"
  "errors (fst (validate_field L f m n)) = errors (fst (validate_field L f m n0))"
  using outcome_indep(1)[of L T r n n0] outcome_indep(2)[of L fs m n n0] outcome_indep(3)[of L f m n n0]
  by (simp_all add: errors_outcome)

lemma errors_combine: "errors (combine k r1 r2) = errors r1 @ errors r2"
  by (cases r1; cases r2) auto

lemma errors_under: "errors (under k r) = map (at_loc (Key k)) (errors r)"
  by (cases r) auto

lemma errors_fields:
  "errors (fst (validate_fields L fs m n)) = concat (map (\<lambda>f. errors (fst (validate_field L f m 0))) fs)"
proof (induction fs arbitrary: n)
  case Nil
  then show ?case by simp
next
  case (Cons f fs)
  obtain r1 n1 where a: "validate_field L f m n = (r1, n1)" by (cases "validate_field L f m n")
  obtain r2 n2 where b: "validate_fields L fs m n1 = (r2, n2)" by (cases "validate_fields L fs m n1")
  have "errors r1 = errors (fst (validate_field L f m 0))"
    using errors_indep(3)[of L f m n 0] a by simp
  moreover have "errors r2 = concat (map (\<lambda>f. errors (fst (validate_field L f m 0))) fs)"
    using Cons.IH[of n1] b by simp
  ultimately show ?case using a b by (simp add: errors_combine)
qed

lemma outcome_nonempty:
  "outcome (fst (validate L T r n)) \<noteq> Some []"
  "outcome (fst (validate_fields L fs m n)) \<noteq> Some []"
  "outcome (fst (validate_field L f m n)) \<noteq> Some []"
proof (induction L T r n and L fs m n and L f m n rule: validate_validate_fields_validate_field.induct)
  case (1 L r n)
  then show ?case by (cases r) (auto simp: fail_def)
next
  case (2 L r n)
  then show ?case by (cases r) (auto simp: fail_def converted_def split: sum.splits)
next
  case (3 L r n)
  then show ?case by (cases r) (auto simp: fail_def converted_def int_as_bool_def split: option.splits sum.splits)
next
  case (4 L r n)
  then show ?case by (cases r) (auto simp: fail_def converted_def int_as_bool_def split: option.splits sum.splits)
next
  case (5 L allowed r n)
  then show ?case by (cases r) (auto simp: fail_def validate_literal_def)
next
  case (6 L r n)
  then show ?case by (cases r) (auto simp: fail_def split: sum.splits dest: validate_items_nonempty)
next
  case (7 L T r n)
  then show ?case by (cases "r = RNone") simp_all
next
  case (8 L cname fs r n)
  show ?case
  proof (cases r)
    case (RMap m)
    obtain fres k where a: "validate_fields L fs m n = (fres, k)" by (cases "validate_fields L fs m n")
    from "8.IH"[OF RMap] a have "outcome fres \<noteq> Some []" by simp
    then show ?thesis using RMap a by (cases fres) auto
  qed (auto simp: fail_def)
next
  case (9 L m n)
  then show ?case by simp
next
  case (10 L f fs m n)
  obtain r1 n1 where a: "validate_field L f m n = (r1, n1)" by (cases "validate_field L f m n")
  obtain r2 n2 where b: "validate_fields L fs m n1 = (r2, n2)" by (cases "validate_fields L fs m n1")
  from "10.IH"(1) a have c: "outcome r1 \<noteq> Some []" by simp
  from "10.IH"(2)[OF a[symmetric]] b have d: "outcome r2 \<noteq> Some []" by simp
  show ?case using a b c d by (cases r1; cases r2) auto
next
  case (11 L name T m n)
  show ?case
  proof (cases "map_of m name")
    case None then show ?thesis by simp
  next
    case (Some rv)
    obtain r1 n1 where a: "validate L T rv n = (r1, n1)" by (cases "validate L T rv n")
    from "11.IH"[OF Some] a show ?thesis using Some by (cases r1) auto
  qed
next
  case (12 L name T d m n)
  show ?case
  proof (cases "map_of m name")
    case None then show ?thesis by (simp split: prod.splits)
  next
    case (Some rv)
    obtain r1 n1 where a: "validate L T rv n = (r1, n1)" by (cases "validate L T rv n")
    from "12.IH"[OF Some] a show ?thesis using Some by (cases r1) auto
  qed
next
  case (13 L name T c kwargs m n)
  show ?case
  proof (cases "map_of m name")
    case None then show ?thesis using "13.IH"(1)[OF None] by simp
  next
    case (Some rv)
    obtain r1 n1 where a: "validate L T rv n = (r1, n1)" by (cases "validate L T rv n")
    from "13.IH"(2)[OF Some] a show ?thesis using Some by (cases r1) auto
  qed
qed

lemma succeeds_iff_no_errors:
  "(\<exists>v. fst (validate L T r n) = Inr v) \<longleftrightarrow> errors (fst (validate L T r n)) = []"
  using outcome_nonempty(1)[of L T r n] by (cases "fst (validate L T r n)") auto

subsection \<open>The attributes of a bound model\<close>

lemma lookup_fld_mem: "lookup_fld fs name = Some f \<Longrightarrow> f \<in> set fs \<and> fld_name f = name"
  by (induction fs) (auto split: if_splits)

lemma field_value:
  "validate_fields L fs m n = (Inr kvs, n') \<Longrightarrow> lookup_fld fs name = Some f \<Longrightarrow>
     \<exists>k k' v. validate_field L f m k = (Inr v, k') \<and> map_of kvs name = Some v \<and> n \<le> k \<and> k' \<le> n'"
proof (induction fs arbitrary: n kvs)
  case Nil
  then show ?case by simp
next
  case (Cons g fs)
  obtain r1 n1 where a: "validate_field L g m n = (r1, n1)" by (cases "validate_field L g m n")
  obtain r2 n2 where b: "validate_fields L fs m n1 = (r2, n2)" by (cases "validate_fields L fs m n1")
  have c: "combine (fld_name g) r1 r2 = Inr kvs" and d: "n2 = n'" using Cons.prems(1) a b by auto
  obtain v kvs' where r1: "r1 = Inr v" and r2: "r2 = Inr kvs'" and kvs: "kvs = (fld_name g, v) # kvs'"
    using c by (cases r1; cases r2) auto
  have le1: "n \<le> n1" using validate_fresh(3)[OF a] by simp
  have le2: "n1 \<le> n2" using validate_fresh(2)[OF b] by simp
  show ?case
  proof (cases "fld_name g = name")
    case True
    then have "f = g" using Cons.prems(2) by simp
    then show ?thesis using a r1 kvs True le1 le2 d by auto
  next
    case False
    then have "lookup_fld fs name = Some f" using Cons.prems(2) by simp
    from Cons.IH[OF b[unfolded r2 d] this] obtain k k' w where
      "validate_field L f m k = (Inr w, k')" "map_of kvs' name = Some w" "n1 \<le> k" "k' \<le> n'" by blast
    then show ?thesis using kvs False le1 d by (intro exI[of _ k] exI[of _ k'] exI[of _ w]) auto
  qed
qed

lemma model_attr:
  assumes "validate L (TModel c) (RMap m) n = (Inr s, n')" and "lookup_fld (cls_fields c) name = Some f"
  shows "\<exists>k k' v. validate_field L f m k = (Inr v, k') \<and> getattr s name = Some v \<and> n \<le> k \<and> k' \<le> n'"
proof -
  obtain cname fs where c: "c = Cls cname fs" by (cases c)
  obtain fres k0 where a: "validate_fields L fs m n = (fres, k0)" by (cases "validate_fields L fs m n")
  from assms(1) c a obtain kvs where fres: "fres = Inr kvs" and s: "s = PModel k0 cname kvs" and n': "n' = Suc k0"
    by (cases fres) auto
  have "lookup_fld fs name = Some f" using assms(2) c by simp
  from field_value[OF a[unfolded fres] this] obtain k k' v where
    "validate_field L f m k = (Inr v, k')" "map_of kvs name = Some v" "n \<le> k" "k' \<le> k0" by blast
  then show ?thesis using s n' by (intro exI[of _ k] exI[of _ k'] exI[of _ v]) auto
qed

lemma errors_model:
  "errors (fst (validate L (TModel c) (RMap m) n)) =
     concat (map (\<lambda>f. errors (fst (validate_field L f m 0))) (cls_fields c))"
proof -
  obtain cname fs where c: "c = Cls cname fs" by (cases c)
  obtain fres k0 where a: "validate_fields L fs m n = (fres, k0)" by (cases "validate_fields L fs m n")
  have "errors (fst (validate L (TModel c) (RMap m) n)) = errors fres"
    using c a by (cases fres) auto
  then show ?thesis using errors_fields[of L fs m n] a c by simp
qed

lemma missing_reported:
  assumes "lookup_fld (cls_fields c) name = Some f" and "fld_dflt f = Required" and "map_of m name = None"
  shows "VErr [Key name] Missing \<in> set (errors (fst (validate L (TModel c) (RMap m) n)))"
proof -
  obtain nm T d where f: "f = Fld nm T d" by (cases f)
  from lookup_fld_mem[OF assms(1)] f have mem: "f \<in> set (cls_fields c)" and nm: "nm = name" by auto
  have "errors (fst (validate_field L f m 0)) = [VErr [Key name] Missing]"
    using f nm assms(2,3) by simp
  then have "VErr [Key name] Missing \<in> set (errors (fst (validate_field L f m 0)))" by simp
  then show ?thesis using mem unfolding errors_model by (simp only: set_concat set_map) blast
qed

lemma nested_reported:
  assumes "lookup_fld (cls_fields c) name = Some f" and "map_of m name = Some rv"
    and "e \<in> set (errors (fst (validate L (fld_type f) rv k)))"
  shows "at_loc (Key name) e \<in> set (errors (fst (validate L (TModel c) (RMap m) n)))"
proof -
  obtain nm T d where f: "f = Fld nm T d" by (cases f)
  from lookup_fld_mem[OF assms(1)] f have mem: "f \<in> set (cls_fields c)" and nm: "nm = name" by auto
  have e0: "e \<in> set (errors (fst (validate L T rv 0)))"
    using assms(3) f errors_indep(1)[of L T rv k 0] by simp
  obtain r1 n1 where a: "validate L T rv 0 = (r1, n1)" by (cases "validate L T rv 0")
  have "errors (fst (validate_field L f m 0)) = map (at_loc (Key name)) (errors r1)"
    using f nm assms(2) a by (cases d) (simp_all add: errors_under)
  then have "at_loc (Key name) e \<in> set (errors (fst (validate_field L f m 0)))"
    using e0 a by simp
  then show ?thesis using mem unfolding errors_model by (simp only: set_concat set_map) blast
qed

lemma mutate_other:
  "a \<notin> ids t \<Longrightarrow> mutate a g t = t"
proof (induction t)
  case (PList b xs)
  then have "map (mutate a g) xs = xs" by (intro map_idI) auto
  then show ?case using PList.prems by simp
next
  case (PModel b c kvs)
  have "map (\<lambda>kv. (fst kv, mutate a g (snd kv))) kvs = kvs"
  proof (intro map_idI)
    fix kv assume kv: "kv \<in> set kvs"
    then have "a \<notin> ids (snd kv)" using PModel.prems by auto
    moreover have "snd kv \<in> Basic_BNFs.snds kv" by (cases kv) simp
    ultimately have "mutate a g (snd kv) = snd kv" using PModel.IH kv by blast
    then show "(fst kv, mutate a g (snd kv)) = kv" by simp
  qed
  then show ?case using PModel.prems by simp
qed simp_all

lemma getattr_ids: "getattr s name = Some v \<Longrightarrow> ids v \<subseteq> ids s"
proof (cases s)
  case (PModel a c kvs)
  assume "getattr s name = Some v"
  then have "(name, v) \<in> set kvs" using PModel by (auto dest: map_of_SomeD)
  then show ?thesis using PModel by force
qed auto

lemma getp_ids: "getp s path = Some v \<Longrightarrow> ids v \<subseteq> ids s"
proof (induction path arbitrary: s)
  case Nil
  then show ?case by simp
next
  case (Cons name path)
  then obtain w where w: "getattr s name = Some w" and "getp w path = Some v"
    by (auto split: option.splits)
  then show ?case using Cons.IH[of w] getattr_ids[OF w] by blast
qed

section \<open>The declared classes, evaluated\<close>

lemmas schema_defs = Settings_def ServerSettings_def CorsSettings_def BasicAuthSettings_def
  JWTAuthSettings_def DataSettings_def UISettings_def LLMSettings_def LocalSettings_def
  SagemakerSettings_def OpenAISettings_def VectorstoreSettings_def IndexstoreSettings_def
  DocumentstoreSettings_def RedisSettings_def DynamoDBSettings_def QdrantSettings_def

lemma cors_default_new:
  "new L CorsSettings [(''enabled'', RBool False)] 3 =
     (Inr (PModel 6 ''CorsSettings''
        [(''enabled'', PBool False), (''allow_credentials'', PBool False),
         (''allow_origins'', PList 3 []), (''allow_origin_regex'', PNone),
         (''allow_methods'', PList 4 [PStr ''GET'']), (''allow_headers'', PList 5 [])]), module_next)"
  by (simp add: new_def CorsSettings_def copy_default_def module_next_def)

lemma cors_default_eq:
  "cors_default = PModel 6 ''CorsSettings''
        [(''enabled'', PBool False), (''allow_credentials'', PBool False),
         (''allow_origins'', PList 3 []), (''allow_origin_regex'', PNone),
         (''allow_methods'', PList 4 [PStr ''GET'']), (''allow_headers'', PList 5 [])]"
  by (simp add: cors_default_def cors_default_new)

lemma merged_example:
  "merge_settings [base_layer repo file emb llm_ep emb_ep, overlay_layer] =
     [(''server'', RMap [(''env_name'', RStr ''prod''), (''port'', RInt 9000)]),
      (''llm'', RMap [(''mode'', RStr ''mock'')]),
      (''vectorstore'', RMap [(''database'', RStr ''chroma'')]),
      (''documentstore'',
         RMap [(''database'', RStr ''redis''),
               (''redis'', RMap [(''host'', RStr ''myredis''), (''port'', RInt 6380)])]),
      (''indexstore'', RMap [(''database'', RStr ''disk'')]),
      (''data'', RMap [(''local_data_folder'', RStr ''/data'')]),
      (''ui'', RMap [(''enabled'', RBool True), (''path'', RStr ''/'')]),
      (''local'', RMap [(''llm_hf_repo_id'', RStr repo), (''llm_hf_model_file'', RStr file),
                        (''embedding_hf_model_name'', RStr emb)]),
      (''sagemaker'', RMap [(''llm_endpoint_name'', RStr llm_ep),
                            (''embedding_endpoint_name'', RStr emb_ep)]),
      (''openai'', RMap [(''api_key'', RStr '''')])]"
  by (simp add: merge_settings_def base_layer_def overlay_layer_def)

lemma validate_model_of:
  "model_of T = Some c \<Longrightarrow> r \<noteq> RNone \<Longrightarrow> validate L T r n = validate L (TModel c) r n"
  by (induction T) auto

lemma required_absent_reported:
  "required_absent c r path \<Longrightarrow>
     VErr (map Key path) Missing \<in> set (errors (fst (validate L (TModel c) r n)))"
proof (induction path arbitrary: c r n)
  case Nil
  then show ?case by simp
next
  case (Cons name path)
  from Cons.prems obtain m where r: "r = RMap m" by (cases r) auto
  from Cons.prems r obtain f where f: "lookup_fld (cls_fields c) name = Some f"
    by (auto split: option.splits)
  show ?case
  proof (cases "map_of m name")
    case None
    then have "path = []" and "fld_dflt f = Required" using Cons.prems r f by auto
    then show ?thesis using missing_reported[OF f _ None, where n=n] r by simp
  next
    case (Some rv)
    then obtain c' where c': "model_of (fld_type f) = Some c'" and ra: "required_absent c' rv path"
      using Cons.prems r f by (auto split: option.splits)
    from ra have "rv \<noteq> RNone" by (cases path) auto
    then have "validate L (fld_type f) rv 0 = validate L (TModel c') rv 0"
      using c' by (rule validate_model_of[rotated])
    then have "VErr (map Key path) Missing \<in> set (errors (fst (validate L (fld_type f) rv 0)))"
      using Cons.IH[OF ra, of 0] by simp
    from nested_reported[OF f Some this, where n=n] show ?thesis using r by simp
  qed
qed

lemma new_failure:
  assumes "e \<in> set (errors (fst (new L c kwargs n)))"
  shows "\<exists>es n'. new L c kwargs n = (Inl es, n') \<and> e \<in> set es"
proof -
  obtain res n' where a: "new L c kwargs n = (res, n')" by (cases "new L c kwargs n")
  then show ?thesis using assms by (cases res) auto
qed

lemma import_module_failure:
  assumes "new L Settings kwargs module_next = (Inl es, n')"
  shows "unsafe_typed_settings (snd (import_module L (Inr kwargs) boot)) = None"
  using assms by (simp add: import_module_def boot_def)

lemma field_errors_loc:
  assumes "e \<in> set (errors (fst (validate_field L f m k)))"
    and "\<And>c kw. fld_dflt f \<noteq> DefaultFactory c kw"
  shows "\<exists>l t. e = VErr (Key (fld_name f) # l) t"
proof -
  obtain name T d where f: "f = Fld name T d" by (cases f)
  show ?thesis
  proof (cases "map_of m name")
    case None
    then show ?thesis using assms f by (cases d) (auto split: prod.splits)
  next
    case (Some rv)
    obtain r1 n1 where a: "validate L T rv k = (r1, n1)" by (cases "validate L T rv k")
    have "errors (fst (validate_field L f m k)) = map (at_loc (Key name)) (errors r1)"
      using f Some a by (cases d) (simp_all add: errors_under)
    then obtain e0 where "e = at_loc (Key name) e0" using assms(1) by auto
    then show ?thesis using f by (cases e0) auto
  qed
qed

lemma new_success:
  assumes "errors (fst (new L c kwargs n)) = []"
  shows "\<exists>s n'. new L c kwargs n = (Inr s, n')"
proof -
  obtain res n' where a: "new L c kwargs n = (res, n')" by (cases "new L c kwargs n")
  from succeeds_iff_no_errors[of L "TModel c" "RMap kwargs" n] assms a
  show ?thesis by (auto simp: new_def)
qed

lemma new_errors:
  "errors (fst (new L c kwargs n)) =
     concat (map (\<lambda>f. errors (fst (validate_field L f kwargs 0))) (cls_fields c))"
  by (simp add: new_def errors_model)

lemma new_attr:
  assumes "new L c kwargs n = (Inr s, n')" and "lookup_fld (cls_fields c) name = Some f"
  shows "\<exists>k k' v. validate_field L f kwargs k = (Inr v, k') \<and> getattr s name = Some v \<and> n \<le> k \<and> k' \<le> n'"
  using model_attr[OF assms(1)[unfolded new_def] assms(2)] .

lemma llm_field_errors:
  assumes "map_of kwargs ''llm'' = Some (RMap lm)" and "map_of lm ''mode'' = Some (RStr x)"
  shows "errors (fst (validate_field L (Fld ''llm'' (TModel LLMSettings) Required) kwargs k)) =
     (if x \<in> set llm_modes then [] else [VErr [Key ''llm'', Key ''mode''] (LiteralError llm_modes)])"
  using assms by (simp add: LLMSettings_def validate_literal_def fail_def llm_modes_def)

lemma llm_field_value:
  assumes "map_of kwargs ''llm'' = Some (RMap lm)" and "map_of lm ''mode'' = Some (RStr x)"
    and "validate_field L (Fld ''llm'' (TModel LLMSettings) Required) kwargs k = (Inr v, k')"
  shows "getattr v ''mode'' = Some (PStr x)"
  using assms by (auto simp: LLMSettings_def validate_literal_def fail_def split: if_splits)

lemma mode_example_ok:
  "errors (fst (new L Settings (mode_example ''mock'') module_next)) = []"
  by (simp add: new_def mode_example_def schema_defs cors_default_eq copy_default_def
      validate_literal_def module_next_def)

lemma field_present_value:
  assumes "validate_field L f m k = (Inr v, k')" and "map_of m (fld_name f) = Some rv"
  shows "validate L (fld_type f) rv k = (Inr v, k')"
proof -
  obtain name T d where f: "f = Fld name T d" by (cases f)
  obtain r1 n1 where a: "validate L T rv k = (r1, n1)" by (cases "validate L T rv k")
  have "validate_field L f m k = (under name r1, n1)" using f assms(2) a by (cases d) simp_all
  then show ?thesis using assms(1) a f by (cases r1) auto
qed

lemma attr_present:
  assumes "validate L (TModel c) (RMap m) n = (Inr s, n')"
    and "lookup_fld (cls_fields c) name = Some f" and "map_of m name = Some rv"
  shows "\<exists>k k' v. validate L (fld_type f) rv k = (Inr v, k') \<and> getattr s name = Some v \<and> n \<le> k \<and> k' \<le> n'"
proof -
  from model_attr[OF assms(1,2)] obtain k k' v where
    a: "validate_field L f m k = (Inr v, k')" and b: "getattr s name = Some v" "n \<le> k" "k' \<le> n'" by blast
  have "fld_name f = name" using lookup_fld_mem[OF assms(2)] by simp
  from field_present_value[OF a] this assms(3) have "validate L (fld_type f) rv k = (Inr v, k')" by simp
  then show ?thesis using b by blast
qed

lemma attr_default:
  assumes "validate L (TModel c) (RMap m) n = (Inr s, n')"
    and "lookup_fld (cls_fields c) name = Some (Fld name T (Default d))" and "map_of m name = None"
  shows "\<exists>k k' v. copy_default d k = (v, k') \<and> getattr s name = Some v \<and> n \<le> k \<and> k' \<le> n'"
proof -
  from model_attr[OF assms(1,2)] obtain k k' v where
    a: "validate_field L (Fld name T (Default d)) m k = (Inr v, k')"
    and b: "getattr s name = Some v" "n \<le> k" "k' \<le> n'" by blast
  from a assms(3) have "copy_default d k = (v, k')" by (auto split: prod.splits)
  then show ?thesis using b by blast
qed

lemma attr_factory:
  assumes "validate L (TModel c) (RMap m) n = (Inr s, n')"
    and "lookup_fld (cls_fields c) name = Some (Fld name T (DefaultFactory c' kw))"
    and "map_of m name = None"
  shows "\<exists>k k' v. new L c' kw k = (Inr v, k') \<and> getattr s name = Some v \<and> n \<le> k \<and> k' \<le> n'"
proof -
  from model_attr[OF assms(1,2)] obtain k k' v where
    a: "validate_field L (Fld name T (DefaultFactory c' kw)) m k = (Inr v, k')"
    and b: "getattr s name = Some v" "n \<le> k" "k' \<le> n'" by blast
  from a assms(3) have "new L c' kw k = (Inr v, k')" by (simp add: new_def)
  then show ?thesis using b by blast
qed

lemma copy_default_hashable: "hashable d \<Longrightarrow> copy_default d k = (d, k)"
  by (simp add: copy_default_def)

lemma lookup_server: "lookup_fld (cls_fields Settings) ''server'' = Some (Fld ''server'' (TModel ServerSettings) Required)"
  by (simp add: Settings_def)

lemma lookup_cors:
  "lookup_fld (cls_fields ServerSettings) ''cors'' = Some (Fld ''cors'' (TModel CorsSettings) (Default cors_default))"
  by (simp add: ServerSettings_def)

lemma lookup_regex:
  "lookup_fld (cls_fields CorsSettings) ''allow_origin_regex'' =
     Some (Fld ''allow_origin_regex'' TListStr (Default PNone))"
  by (simp add: CorsSettings_def)

lemma copy_cors_default:
  "copy_default cors_default k =
     (PModel k ''CorsSettings''
        [(''enabled'', PBool False), (''allow_credentials'', PBool False),
         (''allow_origins'', PList (Suc k) []), (''allow_origin_regex'', PNone),
         (''allow_methods'', PList (Suc (Suc k)) [PStr ''GET'']),
         (''allow_headers'', PList (Suc (Suc (Suc k))) [])], Suc (Suc (Suc (Suc k))))"
  by (simp add: copy_default_def cors_default_eq)

lemma mode_example_new:
  "\<exists>s n'. new L Settings (mode_example ''mock'') module_next = (Inr s, n')"
  using mode_example_ok by (rule new_success)

lemma defaults_applied:
  assumes "validate L (TModel c) (RMap m) n = (Inr s, n')"
    and "lookup_fld (cls_fields c) name = Some (Fld name T (Default d))"
    and "hashable d" and "map_of m name = None"
  shows "getattr s name = Some d"
  using attr_default[OF assms(1,2,4)] assms(3) by (auto simp: copy_default_hashable)

lemma lookup_documentstore:
  "lookup_fld (cls_fields Settings) ''documentstore'' =
     Some (Fld ''documentstore'' (TModel DocumentstoreSettings) Required)"
  by (simp add: Settings_def)

lemma lookup_indexstore:
  "lookup_fld (cls_fields Settings) ''indexstore'' =
     Some (Fld ''indexstore'' (TModel IndexstoreSettings) Required)"
  by (simp add: Settings_def)

lemma lookup_documentstore_database:
  "lookup_fld (cls_fields DocumentstoreSettings) ''database'' =
     Some (Fld ''database'' (TLiteral [''disk'', ''redis'', ''dynamodb'']) (Default (PStr ''disk'')))"
  by (simp add: DocumentstoreSettings_def)

lemma lookup_indexstore_database:
  "lookup_fld (cls_fields IndexstoreSettings) ''database'' =
     Some (Fld ''database'' (TLiteral [''disk'', ''redis'', ''dynamodb'']) (Default (PStr ''disk'')))"
  by (simp add: IndexstoreSettings_def)

lemma group_database_default:
  assumes "new L Settings kwargs n = (Inr s, n')"
    and "lookup_fld (cls_fields Settings) g = Some (Fld g (TModel c) Required)"
    and "lookup_fld (cls_fields c) ''database'' =
           Some (Fld ''database'' (TLiteral [''disk'', ''redis'', ''dynamodb'']) (Default (PStr ''disk'')))"
    and "map_of kwargs g = Some (RMap gm)" and "map_of gm ''database'' = None"
  shows "getp s [g, ''database''] = Some (PStr ''disk'')"
proof -
  from attr_present[OF assms(1)[unfolded new_def] assms(2) assms(4)] obtain k k' v where
    v: "validate L (TModel c) (RMap gm) k = (Inr v, k')" and sv: "getattr s g = Some v" by auto
  from defaults_applied[OF v assms(3) _ assms(5)] have "getattr v ''database'' = Some (PStr ''disk'')" by simp
  then show ?thesis using sv by simp
qed

lemma lookup_qdrant:
  "lookup_fld (cls_fields Settings) ''qdrant'' =
     Some (Fld ''qdrant'' (TOptional (TModel QdrantSettings)) (Default PNone))"
  by (simp add: Settings_def)

lemma qdrant_default_fields_all:
  "list_all (\<lambda>nd. case lookup_fld (cls_fields QdrantSettings) (fst nd) of
                      None \<Rightarrow> False
                    | Some f \<Rightarrow> fld_dflt f = Default (snd nd) \<and> hashable (snd nd)) qdrant_defaults"
  by (simp add: qdrant_defaults_def QdrantSettings_def)

lemma qdrant_default_fields:
  assumes "(name, d) \<in> set qdrant_defaults"
  shows "\<exists>T. lookup_fld (cls_fields QdrantSettings) name = Some (Fld name T (Default d)) \<and> hashable d"
proof -
  have "\<forall>nd \<in> set qdrant_defaults.
          case lookup_fld (cls_fields QdrantSettings) (fst nd) of
            None \<Rightarrow> False | Some f \<Rightarrow> fld_dflt f = Default (snd nd) \<and> hashable (snd nd)"
    using qdrant_default_fields_all by (simp only: list_all_iff)
  from bspec[OF this assms]
  have "case lookup_fld (cls_fields QdrantSettings) name of
          None \<Rightarrow> False | Some f \<Rightarrow> fld_dflt f = Default d \<and> hashable d"
    by (simp split: option.splits)
  then obtain f where f: "lookup_fld (cls_fields QdrantSettings) name = Some f"
    and d: "fld_dflt f = Default d" and h: "hashable d" by (auto split: option.splits)
  obtain nm T d' where ff: "f = Fld nm T d'" by (cases f)
  from lookup_fld_mem[OF f] ff d have "f = Fld name T (Default d)" by simp
  then show ?thesis using f h by blast
qed

lemma qdrant_omitted_errors:
  assumes "map_of kwargs ''qdrant'' = None"
    and "e \<in> set (errors (fst (new L Settings kwargs n)))"
  shows "e \<noteq> VErr (Key ''qdrant'' # l) t"
proof
  assume eq: "e = VErr (Key ''qdrant'' # l) t"
  from assms(2) obtain f where f: "f \<in> set (cls_fields Settings)"
    and ef: "e \<in> set (errors (fst (validate_field L f kwargs 0)))"
    unfolding new_errors by auto
  have nofac: "\<And>c kw. fld_dflt f \<noteq> DefaultFactory c kw" using f by (auto simp: Settings_def)
  from field_errors_loc[OF ef nofac] eq have "fld_name f = ''qdrant''" by auto
  then have "f = Fld ''qdrant'' (TOptional (TModel QdrantSettings)) (Default PNone)"
    using f by (auto simp: Settings_def)
  then show False using ef assms(1) by (simp add: copy_default_def)
qed

lemma qdrant_omitted_value:
  assumes "map_of kwargs ''qdrant'' = None" and "new L Settings kwargs n = (Inr s, n')"
  shows "getattr s ''qdrant'' = Some PNone"
  using defaults_applied[OF assms(2)[unfolded new_def] lookup_qdrant _ assms(1)] by simp

lemma model_shape:
  assumes "validate L (TModel (Cls cname fs)) r n = (Inr v, n')"
  shows "\<exists>a kvs. v = PModel a cname kvs"
proof (cases r)
  case (RMap m)
  obtain fres k0 where a: "validate_fields L fs m n = (fres, k0)" by (cases "validate_fields L fs m n")
  show ?thesis using assms RMap a by (cases fres) auto
qed (use assms in \<open>auto simp: fail_def\<close>)

lemma qdrant_present_value:
  assumes "map_of kwargs ''qdrant'' = Some (RMap q)" and "new L Settings kwargs n = (Inr s, n')"
  shows "\<exists>a kvs. getattr s ''qdrant'' = Some (PModel a ''QdrantSettings'' kvs)
     \<and> (\<forall>(name, d) \<in> set qdrant_defaults. map_of q name = None \<longrightarrow> map_of kvs name = Some d)"
proof -
  from attr_present[OF assms(2)[unfolded new_def] lookup_qdrant assms(1)] obtain k k' v where
    v0: "validate L (TOptional (TModel QdrantSettings)) (RMap q) k = (Inr v, k')"
    and sv: "getattr s ''qdrant'' = Some v" by auto
  from v0 have v: "validate L (TModel QdrantSettings) (RMap q) k = (Inr v, k')" by simp
  obtain cname fs where c: "QdrantSettings = Cls cname fs" and cn: "cname = ''QdrantSettings''"
    by (simp add: QdrantSettings_def)
  from model_shape[OF v[unfolded c]] obtain a kvs where vk: "v = PModel a cname kvs" by blast
  have "\<forall>(name, d) \<in> set qdrant_defaults. map_of q name = None \<longrightarrow> map_of kvs name = Some d"
  proof (intro ballI, clarify)
    fix name d assume mem: "(name, d) \<in> set qdrant_defaults" and no: "map_of q name = None"
    from qdrant_default_fields[OF mem] obtain T where
      l: "lookup_fld (cls_fields QdrantSettings) name = Some (Fld name T (Default d))" and h: "hashable d"
      by blast
    from defaults_applied[OF v l h no] show "map_of kvs name = Some d" using vk by simp
  qed
  then show ?thesis using sv vk cn by blast
qed

lemma qdrant_all_defaults:
  "new L QdrantSettings [] k = (Inr (PModel k ''QdrantSettings'' qdrant_defaults), Suc k)"
  by (simp add: new_def QdrantSettings_def copy_default_def qdrant_defaults_def)

lemma only_qdrant_optional:
  "map fld_name (filter (\<lambda>f. fld_dflt f \<noteq> Required) (cls_fields Settings)) = [''qdrant'']"
  by (simp add: Settings_def)

lemma qdrant_example_new:
  "\<exists>s n'. new L Settings qdrant_example module_next = (Inr s, n')"
proof (rule new_success)
  show "errors (fst (new L Settings qdrant_example module_next)) = []"
    by (simp add: new_def qdrant_example_def mode_example_def schema_defs cors_default_eq
        copy_default_def validate_literal_def module_next_def)
qed

subsection \<open>Identities of the objects of an instance\<close>

lemma model_ids:
  assumes "validate L (TModel c) (RMap m) n = (Inr s, n')"
  shows "\<exists>a cn kvs. s = PModel a cn kvs \<and> n' = Suc a \<and> n \<le> a \<and> (\<forall>kv \<in> set kvs. ids (snd kv) \<subseteq> {n..<a})"
proof -
  obtain cname fs where c: "c = Cls cname fs" by (cases c)
  obtain fres k0 where a: "validate_fields L fs m n = (fres, k0)" by (cases "validate_fields L fs m n")
  from assms c a obtain kvs where fres: "fres = Inr kvs" and s: "s = PModel k0 cname kvs" and n': "n' = Suc k0"
    by (cases fres) auto
  from validate_fresh(2)[OF a] fres have "n \<le> k0" and "(\<Union>kv \<in> set kvs. ids (snd kv)) \<subseteq> {n..<k0}"
    by auto
  then show ?thesis using s n' by blast
qed

lemma map_of_map_values:
  "map_of (map (\<lambda>kv. (fst kv, h (snd kv))) kvs) name = map_option h (map_of kvs name)"
  by (induction kvs) auto

lemma child_ids:
  assumes "\<forall>kv \<in> set kvs. ids (snd kv) \<subseteq> {n..<a}" and "getattr (PModel a cn kvs) name = Some v"
  shows "ids v \<subseteq> {n..<a}"
proof -
  from assms(2) have "(name, v) \<in> set kvs" by (auto dest: map_of_SomeD)
  then show ?thesis using assms(1) by force
qed

lemma new_fresh:
  assumes "new L c kwargs n = (Inr s, n')"
  shows "ids s \<subseteq> {n..<n'}"
  using validate_fresh(1)[OF assms[unfolded new_def]] by simp

lemma lookup_basic_auth:
  "lookup_fld (cls_fields ServerSettings) ''basic_auth'' =
     Some (Fld ''basic_auth'' (TModel BasicAuthSettings)
        (DefaultFactory BasicAuthSettings [(''enabled'', RBool False), (''secret'', RStr ''secret-key'')]))"
  by (simp add: ServerSettings_def)

lemma basic_auth_factory:
  "new L BasicAuthSettings [(''enabled'', RBool False), (''secret'', RStr ''secret-key'')] k =
     (Inr (PModel k ''BasicAuthSettings'' [(''enabled'', PBool False), (''secret'', PStr ''secret-key'')]), Suc k)"
  by (simp add: new_def BasicAuthSettings_def)

lemma basic_auth_default_value:
  assumes "new L Settings kwargs n = (Inr s, n')"
    and "map_of kwargs ''server'' = Some (RMap sm)" and "map_of sm ''basic_auth'' = None"
  shows "\<exists>a. getp s [''server'', ''basic_auth''] =
            Some (PModel a ''BasicAuthSettings'' [(''enabled'', PBool False), (''secret'', PStr ''secret-key'')])
          \<and> a \<in> ids s
          \<and> (\<forall>w. getp (setattr a ''secret'' w s) [''server'', ''basic_auth'', ''secret''] = Some w)"
proof -
  from model_ids[OF assms(1)[unfolded new_def]] obtain r cn kvs where
    s: "s = PModel r cn kvs" and rk: "\<forall>kv \<in> set kvs. ids (snd kv) \<subseteq> {n..<r}" by blast
  from attr_present[OF assms(1)[unfolded new_def] lookup_server assms(2)] obtain k k' v where
    v: "validate L (TModel ServerSettings) (RMap sm) k = (Inr v, k')" and sv: "getattr s ''server'' = Some v"
    by auto
  from model_ids[OF v] obtain a' cn' kvs' where
    v': "v = PModel a' cn' kvs'" and ak: "\<forall>kv \<in> set kvs'. ids (snd kv) \<subseteq> {k..<a'}" by blast
  from attr_factory[OF v lookup_basic_auth assms(3)] obtain j j' b where
    b: "new L BasicAuthSettings [(''enabled'', RBool False), (''secret'', RStr ''secret-key'')] j = (Inr b, j')"
    and vb: "getattr v ''basic_auth'' = Some b" by blast
  let ?b = "PModel j ''BasicAuthSettings'' [(''enabled'', PBool False), (''secret'', PStr ''secret-key'')]"
  from b have beq: "b = ?b" by (simp add: basic_auth_factory)
  have p: "getp s [''server'', ''basic_auth''] = Some ?b" using sv vb beq by simp
  have j_lt: "j < a'" using child_ids[OF ak vb[unfolded v']] beq by simp
  have a'_lt: "a' < r" using child_ids[OF rk sv[unfolded s]] v' by simp
  have mem: "j \<in> ids s" using getp_ids[OF p] by simp
  have "getp (setattr j ''secret'' w s) [''server'', ''basic_auth'', ''secret''] = Some w" for w
  proof -
    have "j \<noteq> r" and "j \<noteq> a'" using j_lt a'_lt by auto
    then show ?thesis
      using sv vb s v' beq by (simp add: setattr_def map_of_map_values)
  qed
  then show ?thesis using p mem by blast
qed

lemma new_success_any:
  assumes "errors (fst (new L c kwargs n0)) = []"
  shows "\<exists>s n'. new L c kwargs n = (Inr s, n')"
proof (rule new_success)
  show "errors (fst (new L c kwargs n)) = []"
    using assms errors_indep(1)[of L "TModel c" "RMap kwargs" n n0] by (simp add: new_def)
qed

lemma cors_example_ok:
  "errors (fst (new L Settings cors_example module_next)) = []"
  by (simp add: new_def cors_example_def mode_example_def schema_defs cors_default_eq copy_default_def
      validate_literal_def module_next_def)

lemma instances_disjoint:
  assumes "new L Settings kw1 n = (Inr s1, n1)" and "n1 \<le> m" and "new L Settings kw2 m = (Inr s2, m1)"
  shows "ids s1 \<inter> ids s2 = {}"
  using new_fresh[OF assms(1)] new_fresh[OF assms(3)] assms(2) by fastforce

lemma class_default_ids_eq: "class_default_ids = {0, 1, 2, 3, 4, 5, 6}"
  by (auto simp: class_default_ids_def schema_defs cors_default_eq)

lemma class_default_ids_below: "class_default_ids \<subseteq> {..<module_next}"
  by (simp add: class_default_ids_eq module_next_def)

lemma lookup_allow_origins:
  "lookup_fld (cls_fields CorsSettings) ''allow_origins'' =
     Some (Fld ''allow_origins'' TListStr (Default (PList 0 [])))"
  by (simp add: CorsSettings_def)

lemma default_cors:
  assumes "new L Settings kwargs n = (Inr s, n')"
    and "map_of kwargs ''server'' = Some (RMap sm)" and "map_of sm ''cors'' = None"
  shows "\<exists>k. getp s [''server'', ''cors''] =
     Some (PModel k ''CorsSettings''
        [(''enabled'', PBool False), (''allow_credentials'', PBool False),
         (''allow_origins'', PList (Suc k) []), (''allow_origin_regex'', PNone),
         (''allow_methods'', PList (Suc (Suc k)) [PStr ''GET'']),
         (''allow_headers'', PList (Suc (Suc (Suc k))) [])])
     \<and> {k, Suc k, Suc (Suc k), Suc (Suc (Suc k))} \<subseteq> ids s"
proof -
  from attr_present[OF assms(1)[unfolded new_def] lookup_server assms(2)] obtain k k' v where
    v: "validate L (TModel ServerSettings) (RMap sm) k = (Inr v, k')" and sv: "getattr s ''server'' = Some v"
    by auto
  from attr_default[OF v lookup_cors assms(3)] obtain j j' c where
    c: "copy_default cors_default j = (c, j')" and vc: "getattr v ''cors'' = Some c" by blast
  from c have ceq: "c = PModel j ''CorsSettings''
        [(''enabled'', PBool False), (''allow_credentials'', PBool False),
         (''allow_origins'', PList (Suc j) []), (''allow_origin_regex'', PNone),
         (''allow_methods'', PList (Suc (Suc j)) [PStr ''GET'']),
         (''allow_headers'', PList (Suc (Suc (Suc j))) [])]"
    by (simp add: copy_cors_default)
  have p: "getp s [''server'', ''cors''] = Some c" using sv vc by simp
  from getp_ids[OF p] have "{j, Suc j, Suc (Suc j), Suc (Suc (Suc j))} \<subseteq> ids s"
    unfolding ceq by simp
  then show ?thesis using p ceq by blast
qed

lemma default_allow_origins:
  assumes "new L Settings kwargs n = (Inr s, n')"
    and "map_of kwargs ''server'' = Some (RMap sm)" and "map_of sm ''cors'' = Some (RMap cm)"
    and "map_of cm ''allow_origins'' = None"
  shows "\<exists>a. getp s [''server'', ''cors'', ''allow_origins''] = Some (PList a []) \<and> a \<in> ids s"
proof -
  from attr_present[OF assms(1)[unfolded new_def] lookup_server assms(2)] obtain k k' v where
    v: "validate L (TModel ServerSettings) (RMap sm) k = (Inr v, k')" and sv: "getattr s ''server'' = Some v"
    by auto
  from attr_present[OF v lookup_cors assms(3)] obtain j j' c where
    c: "validate L (TModel CorsSettings) (RMap cm) j = (Inr c, j')" and vc: "getattr v ''cors'' = Some c"
    by auto
  from attr_default[OF c lookup_allow_origins assms(4)] obtain i i' l where
    l: "copy_default (PList 0 []) i = (l, i')" and cl: "getattr c ''allow_origins'' = Some l" by blast
  from l have leq: "l = PList i []" by (simp add: copy_default_def)
  have p: "getp s [''server'', ''cors'', ''allow_origins''] = Some (PList i [])"
    using sv vc cl leq by simp
  from getp_ids[OF p] have "i \<in> ids s" by simp
  then show ?thesis using p by blast
qed
section \<open>The module in a process\<close>

lemma import_loaded:
  "unsafe_typed_settings p = Some s \<Longrightarrow> import_module L env p = (Inr s, p)"
  by (simp add: import_module_def)

lemma import_success:
  assumes "import_module L env p = (Inr s, p')"
  shows "unsafe_typed_settings p' = Some s \<and> global_injector p' = global_injector p"
proof (cases "unsafe_typed_settings p")
  case (Some t)
  then show ?thesis using assms by (simp add: import_module_def)
next
  case None
  then show ?thesis using assms
    by (auto simp: import_module_def Let_def split: sum.splits prod.splits)
qed

lemma import_failure:
  assumes "import_module L env p = (Inl e, p')"
  shows "unsafe_typed_settings p' = None \<and> unsafe_typed_settings p = None \<and> loads p' = Suc (loads p)
    \<and> global_injector p' = global_injector p"
proof (cases "unsafe_typed_settings p")
  case (Some t)
  then show ?thesis using assms by (simp add: import_module_def)
next
  case None
  then show ?thesis using assms
    by (auto simp: import_module_def Let_def split: sum.splits prod.splits)
qed

lemma import_first_load:
  assumes "unsafe_typed_settings p = None" and "import_module L env p = (Inr s, p')"
  shows "loads p' = Suc (loads p)"
  using assms by (auto simp: import_module_def Let_def split: sum.splits prod.splits)

lemma injector_bound:
  "global_injector p = Some s \<Longrightarrow> p\<lparr>global_injector := Some s\<rparr> = p"
  by (cases p) simp

lemma step_registered:
  assumes "unsafe_typed_settings p = Some s"
    and "global_injector p = None \<or> global_injector p = Some s"
  shows "step L env ev p = (Inr s, if ev = ImportModule then p else p\<lparr>global_injector := Some s\<rparr>)"
proof -
  have a: "import_module L env p = (Inr s, p)" using assms(1) by (rule import_loaded)
  have b: "injector_get L env p = (Inr s, p\<lparr>global_injector := Some s\<rparr>)"
    using assms(2) a by (auto simp: injector_get_def injector_bound)
  show ?thesis using a b by (cases ev) (simp_all add: settings_def)
qed

lemma run_registered:
  assumes "unsafe_typed_settings p = Some s"
    and "global_injector p = None \<or> global_injector p = Some s"
  shows "run L env evs p =
     (replicate (length evs) (Inr s),
      if \<forall>ev \<in> set evs. ev = ImportModule then p else p\<lparr>global_injector := Some s\<rparr>)"
  using assms
proof (induction evs arbitrary: p)
  case Nil
  then show ?case by simp
next
  case (Cons ev evs)
  let ?p1 = "if ev = ImportModule then p else p\<lparr>global_injector := Some s\<rparr>"
  have st: "step L env ev p = (Inr s, ?p1)" using Cons.prems by (rule step_registered)
  have a: "unsafe_typed_settings ?p1 = Some s" using Cons.prems(1) by simp
  have b: "global_injector ?p1 = None \<or> global_injector ?p1 = Some s" using Cons.prems(2) by simp
  from Cons.IH[OF a b] st show ?case by simp
qed

lemma step_first:
  assumes "unsafe_typed_settings p = None" and "global_injector p = None"
    and "import_module L env p = (Inr s, p1)"
  shows "step L env ev p = (Inr s, if ev = ImportModule then p1 else p1\<lparr>global_injector := Some s\<rparr>)"
proof -
  from import_success[OF assms(3)] assms(2) have u: "unsafe_typed_settings p1 = Some s"
    and g: "global_injector p1 = None" by simp_all
  have b: "injector_get L env p = (Inr s, p1\<lparr>global_injector := Some s\<rparr>)"
    using assms(2,3) by (simp add: injector_get_def)
  have c: "injector_get L env p1 = (Inr s, p1\<lparr>global_injector := Some s\<rparr>)"
    using g import_loaded[OF u] by (simp add: injector_get_def)
  show ?thesis using assms(3) b c by (cases ev) (simp_all add: settings_def)
qed

lemma step_failing:
  assumes "global_injector p = None" and "import_module L env p = (Inl e, p1)"
  shows "step L env ev p = (Inl e, p1)"
  using assms by (cases ev) (simp_all add: settings_def injector_get_def)

lemma new_fail_indep:
  assumes "new L c kw n0 = (Inl es, k0)"
  shows "\<exists>k. new L c kw n = (Inl es, k)"
proof -
  obtain r1 k1 where b: "new L c kw n = (r1, k1)" by (cases "new L c kw n")
  have "outcome r1 = outcome (Inl es :: verr list + pval)"
    using outcome_indep(1)[of L "TModel c" "RMap kw" n n0] assms b by (simp add: new_def)
  then have "r1 = Inl es" by (cases r1) auto
  then show ?thesis using b by simp
qed

lemma import_fail_indep:
  assumes "unsafe_typed_settings p = None" and "fst (import_module L env boot) = Inl e"
  shows "fst (import_module L env p) = Inl e"
proof (cases env)
  case (Inl msg)
  then show ?thesis using assms by (simp add: import_module_def boot_def Let_def)
next
  case (Inr kw)
  obtain r0 k0 where a: "new L Settings kw module_next = (r0, k0)" by (cases "new L Settings kw module_next")
  from assms(2) Inr a obtain es where r0: "r0 = Inl es" and e: "e = ValidationError es"
    by (cases r0) (auto simp: import_module_def boot_def Let_def)
  from new_fail_indep[OF a[unfolded r0], of "max module_next (next_id p)"] obtain k
    where "new L Settings kw (max module_next (next_id p)) = (Inl es, k)" by blast
  then show ?thesis using assms(1) Inr e by (simp add: import_module_def Let_def)
qed

lemma run_failing:
  assumes "fst (import_module L env boot) = Inl e"
  shows "unsafe_typed_settings p = None \<Longrightarrow> global_injector p = None \<Longrightarrow>
     fst (run L env evs p) = replicate (length evs) (Inl e)
     \<and> loads (snd (run L env evs p)) = loads p + length evs"
proof (induction evs arbitrary: p)
  case Nil
  then show ?case by simp
next
  case (Cons ev evs)
  obtain r p1 where im: "import_module L env p = (r, p1)" by (cases "import_module L env p")
  from import_fail_indep[OF Cons.prems(1) assms] im have r: "r = Inl e" by simp
  from import_failure[OF im[unfolded r]] Cons.prems(2) have n: "unsafe_typed_settings p1 = None"
    and g: "global_injector p1 = None" and l: "loads p1 = Suc (loads p)" by auto
  have st: "step L env ev p = (Inl e, p1)" using Cons.prems(2) im[unfolded r] by (rule step_failing)
  obtain rs1 p2 where ru: "run L env evs p1 = (rs1, p2)" by (cases "run L env evs p1")
  from Cons.IH[OF n g] ru l have "rs1 = replicate (length evs) (Inl e)" and "loads p2 = Suc (loads p) + length evs"
    by auto
  then show ?case using st ru by simp
qed

lemma run_succeeding:
  assumes "import_module L env boot = (Inr s, p1)" and "evs \<noteq> []"
  shows "fst (run L env evs boot) = replicate (length evs) (Inr s)
    \<and> loads (snd (run L env evs boot)) = 1
    \<and> unsafe_typed_settings (snd (run L env evs boot)) = Some s
    \<and> global_injector (snd (run L env evs boot))
        = (if \<forall>ev \<in> set evs. ev = ImportModule then None else Some s)"
proof -
  obtain ev evs' where evs: "evs = ev # evs'" using assms(2) by (cases evs) auto
  let ?p2 = "if ev = ImportModule then p1 else p1\<lparr>global_injector := Some s\<rparr>"
  have st: "step L env ev boot = (Inr s, ?p2)"
    using assms(1) by (intro step_first) (simp_all add: boot_def)
  from import_success[OF assms(1)] have u: "unsafe_typed_settings p1 = Some s"
    and g: "global_injector p1 = None" by (simp_all add: boot_def)
  have "loads p1 = Suc (loads boot)" using import_first_load[OF _ assms(1)] by (simp add: boot_def)
  then have l: "loads p1 = 1" by (simp add: boot_def)
  have a: "unsafe_typed_settings ?p2 = Some s" using u by simp
  have b: "global_injector ?p2 = None \<or> global_injector ?p2 = Some s" using g by simp
  from run_registered[OF a b, of L env evs'] st evs u g l show ?thesis by auto
qed

lemma mode_example_import:
  "\<exists>s p1. import_module L (Inr (mode_example ''mock'')) boot = (Inr s, p1)"
proof -
  from mode_example_new obtain s n' where "new L Settings (mode_example ''mock'') module_next = (Inr s, n')"
    by blast
  then show ?thesis by (simp add: import_module_def boot_def Let_def)
qed

lemma field_errors_origin:
  assumes "e \<in> set (errors (fst (validate_field L f m k)))"
  shows "(\<exists>l t. e = VErr (Key (fld_name f) # l) t)
     \<or> (map_of m (fld_name f) = None
        \<and> (\<exists>c kw. fld_dflt f = DefaultFactory c kw \<and> e \<in> set (errors (fst (new L c kw k)))))"
proof -
  obtain name T d where f: "f = Fld name T d" by (cases f)
  show ?thesis
  proof (cases "map_of m name")
    case None
    then show ?thesis using assms f by (cases d) (auto split: prod.splits simp: new_def)
  next
    case (Some rv)
    obtain r1 n1 where a: "validate L T rv k = (r1, n1)" by (cases "validate L T rv k")
    have "errors (fst (validate_field L f m k)) = map (at_loc (Key name)) (errors r1)"
      using f Some a by (cases d) (simp_all add: errors_under)
    then obtain e0 where "e = at_loc (Key name) e0" using assms by auto
    then show ?thesis using f by (cases e0) auto
  qed
qed

lemma store_factories_ok:
  "errors (fst (new L RedisSettings [(''host'', RStr ''redis''), (''port'', RInt 6379)] k)) = []"
  "errors (fst (new L DynamoDBSettings [(''table_name'', RStr ''dummy_table'')] k)) = []"
  by (simp_all add: new_def RedisSettings_def DynamoDBSettings_def)

lemma store_fields_factories:
  assumes "c = DocumentstoreSettings \<or> c = IndexstoreSettings" and "f \<in> set (cls_fields c)"
    and "fld_dflt f = DefaultFactory c' kw"
  shows "errors (fst (new L c' kw k)) = []"
  using assms store_factories_ok[where k=k]
  by (auto simp: DocumentstoreSettings_def IndexstoreSettings_def)

lemma store_database_field:
  assumes "c = DocumentstoreSettings \<or> c = IndexstoreSettings" and "f \<in> set (cls_fields c)"
    and "fld_name f = ''database''"
  shows "f = Fld ''database'' (TLiteral [''disk'', ''redis'', ''dynamodb'']) (Default (PStr ''disk''))"
  using assms by (auto simp: DocumentstoreSettings_def IndexstoreSettings_def)

lemma store_group_field:
  assumes "g = ''documentstore'' \<or> g = ''indexstore''" and "f \<in> set (cls_fields Settings)"
    and "fld_name f = g"
  shows "\<exists>c. f = Fld g (TModel c) Required \<and> (c = DocumentstoreSettings \<or> c = IndexstoreSettings)"
  using assms by (auto simp: Settings_def)

lemma database_key_no_error:
  assumes "g = ''documentstore'' \<or> g = ''indexstore''"
    and "map_of kwargs g = Some (RMap gm)" and "map_of gm ''database'' = None"
    and "e \<in> set (errors (fst (new L Settings kwargs n)))"
  shows "e \<noteq> VErr [Key g, Key ''database''] t"
proof
  assume eq: "e = VErr [Key g, Key ''database''] t"
  from assms(4) obtain f where f: "f \<in> set (cls_fields Settings)"
    and ef: "e \<in> set (errors (fst (validate_field L f kwargs 0)))"
    unfolding new_errors by auto
  have nofac: "\<And>c kw. fld_dflt f \<noteq> DefaultFactory c kw" using f by (auto simp: Settings_def)
  from field_errors_loc[OF ef nofac] eq have "fld_name f = g" by auto
  from store_group_field[OF assms(1) f this] obtain c where
    fc: "f = Fld g (TModel c) Required" and c: "c = DocumentstoreSettings \<or> c = IndexstoreSettings"
    by blast
  obtain r1 n1 where a: "validate L (TModel c) (RMap gm) 0 = (r1, n1)"
    by (cases "validate L (TModel c) (RMap gm) 0")
  have "errors (fst (validate_field L f kwargs 0)) = map (at_loc (Key g)) (errors r1)"
    using fc assms(2) a by (simp add: errors_under)
  then obtain e0 where e0: "e0 \<in> set (errors r1)" and ee: "e = at_loc (Key g) e0" using ef by auto
  from ee eq have e0eq: "e0 = VErr [Key ''database''] t" by (cases e0) auto
  from e0 a obtain f' where f': "f' \<in> set (cls_fields c)"
    and ef': "e0 \<in> set (errors (fst (validate_field L f' gm 0)))"
    using errors_model[of L c gm 0] by auto
  from field_errors_origin[OF ef'] show False
  proof
    assume "\<exists>l t. e0 = VErr (Key (fld_name f') # l) t"
    then have "fld_name f' = ''database''" using e0eq by auto
    from store_database_field[OF c f' this] ef' assms(3) show False
      by (simp add: copy_default_def)
  next
    assume "map_of gm (fld_name f') = None
        \<and> (\<exists>c' kw. fld_dflt f' = DefaultFactory c' kw \<and> e0 \<in> set (errors (fst (new L c' kw 0))))"
    then obtain c' kw where "fld_dflt f' = DefaultFactory c' kw"
      and "e0 \<in> set (errors (fst (new L c' kw 0)))" by blast
    then show False using store_fields_factories[OF c f', where c'=c' and kw=kw and k=0] by simp
  qed
qed

section \<open>The module under several threads\<close>

lemma tick_registered:
  assumes "unsafe_typed_settings p = Some s"
    and "global_injector p = None \<or> global_injector p = Some s"
  shows "tick L env t ev p =
     (Some (Inr s), if ev = ImportModule then p else p\<lparr>global_injector := Some s\<rparr>)"
  using step_registered[OF assms, of L env ev] assms(1) by (simp add: tick_def)

lemma interleave_success:
  fixes s :: pval and kw :: "(string \<times> raw) list"
  defines "I \<equiv> \<lambda>p. (unsafe_typed_settings p = None \<and> next_id p = 0 \<and> global_injector p = None
                      \<and> loads p = pending p
                      \<and> (\<forall>t kw'. importing p = Some (t, Some kw') \<longrightarrow> kw' = kw))
                  \<or> (unsafe_typed_settings p = Some s
                      \<and> (global_injector p = None \<or> global_injector p = Some s) \<and> loads p = 1)"
  assumes new: "new L Settings kw module_next = (Inr s, k)" and inv: "I p"
  shows "I (snd (interleave L (Inr kw) sch p))
    \<and> (\<forall>x \<in> set (fst (interleave L (Inr kw) sch p)). snd x = Inr s)
    \<and> (unsafe_typed_settings p = Some s \<or> fst (interleave L (Inr kw) sch p) \<noteq> []
         \<longrightarrow> unsafe_typed_settings (snd (interleave L (Inr kw) sch p)) = Some s)"
proof -
  have tick: "I p' \<and> (r = None \<or> r = Some (Inr s))
      \<and> (r \<noteq> None \<longrightarrow> unsafe_typed_settings p = Some s)
      \<and> (unsafe_typed_settings p = Some s \<longrightarrow> unsafe_typed_settings p' = Some s)"
    if i: "I p" and t: "tick L (Inr kw) t ev p = (r, p')" for p t ev r p'
  proof (cases "unsafe_typed_settings p")
    case (Some s')
    with i have u: "unsafe_typed_settings p = Some s"
      and g: "global_injector p = None \<or> global_injector p = Some s" and l: "loads p = 1"
      by (auto simp: I_def)
    from tick_registered[OF u g, of L "Inr kw" t ev] t have "r = Some (Inr s)"
      and "p' = (if ev = ImportModule then p else p\<lparr>global_injector := Some s\<rparr>)" by simp_all
    then show ?thesis using u g l by (simp add: I_def)
  next
    case None
    with i have a: "next_id p = 0" "global_injector p = None" "loads p = pending p"
      and b: "\<forall>t kw'. importing p = Some (t, Some kw') \<longrightarrow> kw' = kw" by (auto simp: I_def)
    show ?thesis
    proof (cases "importing p")
      case n: None
      then show ?thesis using None a t by (auto simp: tick_def I_def pending_def)
    next
      case (Some hs)
      obtain h stage where hs: "hs = (h, stage)" by (cases hs)
      show ?thesis
      proof (cases "h = t")
        case False
        then have "r = None" and "p' = p" using None Some hs t by (auto simp: tick_def)
        then show ?thesis using i None by simp
      next
        case True
        show ?thesis
        proof (cases stage)
          case n: None
          then show ?thesis using None Some hs True a t
            by (auto simp: tick_def I_def pending_def Let_def)
        next
          case (Some kw')
          then have kw': "kw' = kw" using b \<open>importing p = Some hs\<close> hs by simp
          have "max module_next (next_id p) = module_next" using a(1) by simp
          then show ?thesis using None \<open>importing p = Some hs\<close> hs True Some kw' a t new
            by (auto simp: tick_def I_def pending_def)
        qed
      qed
    qed
  qed
  show ?thesis using inv
  proof (induction sch arbitrary: p)
    case Nil
    then show ?case by simp
  next
    case (Cons te sch)
    obtain t ev where te: "te = (t, ev)" by (cases te)
    obtain r p1 where t1: "tick L (Inr kw) t ev p = (r, p1)" by (cases "tick L (Inr kw) t ev p")
    note st = tick[OF Cons.prems t1]
    note ih = Cons.IH[OF st[THEN conjunct1]]
    obtain rs p2 where ru: "interleave L (Inr kw) sch p1 = (rs, p2)"
      by (cases "interleave L (Inr kw) sch p1")
    show ?case
    proof (cases r)
      case None
      then show ?thesis using te t1 ih st by simp
    next
      case (Some x)
      then have x: "x = Inr s" and u: "unsafe_typed_settings p = Some s" using st by auto
      then have "unsafe_typed_settings p1 = Some s" using st by simp
      then show ?thesis using te t1 Some x ih ru by simp
    qed
  qed
qed

lemma interleave_failure:
  fixes e :: startup_error and env :: "string + (string \<times> raw) list"
  defines "I \<equiv> \<lambda>p. unsafe_typed_settings p = None \<and> global_injector p = None
                  \<and> (\<forall>t kw'. importing p = Some (t, Some kw') \<longrightarrow> env = Inr kw')"
  assumes fails: "fst (import_module L env boot) = Inl e" and inv: "I p"
  shows "I (snd (interleave L env sch p))
    \<and> (\<forall>x \<in> set (fst (interleave L env sch p)). snd x = Inl e)
    \<and> loads (snd (interleave L env sch p)) + pending p
        = loads p + pending (snd (interleave L env sch p)) + length (fst (interleave L env sch p))"
proof -
  have load: "e = LoadFailed msg" if "env = Inl msg" for msg
    using fails that by (simp add: import_module_def boot_def Let_def)
  have bind: "\<exists>es k. e = ValidationError es \<and> new L Settings kw n = (Inl es, k)"
    if kw: "env = Inr kw" for kw n
  proof -
    obtain r0 k0 where a: "new L Settings kw module_next = (r0, k0)"
      by (cases "new L Settings kw module_next")
    from fails kw a obtain es where r0: "r0 = Inl es" and e: "e = ValidationError es"
      by (cases r0) (auto simp: import_module_def boot_def Let_def)
    from new_fail_indep[OF a[unfolded r0], of n] e show ?thesis by blast
  qed
  have tick: "I p' \<and> (r = None \<or> r = Some (Inl e))
      \<and> loads p' + pending p = loads p + pending p' + (if r = None then 0 else 1)"
    if i: "I p" and t: "tick L env t ev p = (r, p')" for p t ev r p'
  proof -
    from i have u: "unsafe_typed_settings p = None" and g: "global_injector p = None"
      and b: "\<forall>t kw'. importing p = Some (t, Some kw') \<longrightarrow> env = Inr kw'" by (auto simp: I_def)
    show ?thesis
    proof (cases "importing p")
      case None
      then show ?thesis using u g t by (auto simp: tick_def I_def pending_def)
    next
      case (Some hs)
      obtain h stage where hs: "hs = (h, stage)" by (cases hs)
      show ?thesis
      proof (cases "h = t")
        case False
        then have "r = None" and "p' = p" using u Some hs t by (auto simp: tick_def)
        then show ?thesis using i by simp
      next
        case True
        show ?thesis
        proof (cases stage)
          case n: None
          show ?thesis
          proof (cases env)
            case (Inl msg)
            then show ?thesis using u g Some hs True n t load[OF Inl]
              by (auto simp: tick_def I_def pending_def Let_def)
          next
            case (Inr kw)
            then show ?thesis using u g Some hs True n t
              by (auto simp: tick_def I_def pending_def Let_def)
          qed
        next
          case s: (Some kw')
          then have env: "env = Inr kw'" using b Some hs by simp
          from bind[OF env, of "max module_next (next_id p)"] obtain es k where
            "e = ValidationError es" and "new L Settings kw' (max module_next (next_id p)) = (Inl es, k)"
            by blast
          then show ?thesis using u g Some hs True s t
            by (auto simp: tick_def I_def pending_def)
        qed
      qed
    qed
  qed
  show ?thesis using inv
  proof (induction sch arbitrary: p)
    case Nil
    then show ?case by simp
  next
    case (Cons te sch)
    obtain t ev where te: "te = (t, ev)" by (cases te)
    obtain r p1 where t1: "tick L env t ev p = (r, p1)" by (cases "tick L env t ev p")
    note st = tick[OF Cons.prems t1]
    note ih = Cons.IH[OF st[THEN conjunct1]]
    obtain rs p2 where ru: "interleave L env sch p1 = (rs, p2)"
      by (cases "interleave L env sch p1")
    show ?case
    proof (cases r)
      case None
      then show ?thesis using te t1 ih st by simp
    next
      case (Some x)
      then have x: "x = Inl e" using st by auto
      then show ?thesis using te t1 Some ih ru st by simp
    qed
  qed
qed

section \<open>The claims\<close>

text \<open>
  C1. Whatever else the merged mapping holds, a string for \<open>llm.mode\<close> outside
  \<open>local\<close>, \<open>openai\<close>, \<open>sagemaker\<close>, \<open>mock\<close> makes \<open>Settings(**raw)\<close> fail with
  an error located at \<open>llm.mode\<close> that lists the four allowed values. With one of the four
  values binding succeeds, whichever it is and whatever the backend groups hold, provided
  every other field of \<open>Settings\<close> binds (it is present where required and of its declared
  type): no validation couples the mode with the group of a backend. Whether a field binds
  is decided by the validation of the library, numeric conversions included; the statement is
  for every table \<open>L\<close> of these conversions.
\<close>

theorem llm_mode_enum:
  assumes "map_of kwargs ''llm'' = Some (RMap lm)" and "map_of lm ''mode'' = Some (RStr x)"
  shows "(x \<notin> set llm_modes \<longrightarrow>
            (\<exists>es n'. new L Settings kwargs n = (Inl es, n')
               \<and> VErr [Key ''llm'', Key ''mode''] (LiteralError llm_modes) \<in> set es))
       \<and> (x \<in> set llm_modes
            \<and> (\<forall>f \<in> set (cls_fields Settings).
                   fld_name f \<noteq> ''llm'' \<longrightarrow> errors (fst (validate_field L f kwargs 0)) = [])
          \<longrightarrow> (\<exists>s n'. new L Settings kwargs n = (Inr s, n') \<and> getp s [''llm'', ''mode''] = Some (PStr x)))"
proof (intro conjI impI)
  assume bad: "x \<notin> set llm_modes"
  have "VErr [Key ''llm'', Key ''mode''] (LiteralError llm_modes) \<in> set (errors (fst (new L Settings kwargs n)))"
    unfolding new_errors using llm_field_errors[OF assms, where k=0] bad
    by (simp add: Settings_def)
  then show "\<exists>es n'. new L Settings kwargs n = (Inl es, n')
               \<and> VErr [Key ''llm'', Key ''mode''] (LiteralError llm_modes) \<in> set es"
    by (rule new_failure)
next
  assume h: "x \<in> set llm_modes
     \<and> (\<forall>f \<in> set (cls_fields Settings).
            fld_name f \<noteq> ''llm'' \<longrightarrow> errors (fst (validate_field L f kwargs 0)) = [])"
  have "errors (fst (validate_field L f kwargs 0)) = []" if f: "f \<in> set (cls_fields Settings)" for f
  proof (cases "fld_name f = ''llm''")
    case True
    then have "f = Fld ''llm'' (TModel LLMSettings) Required" using f by (auto simp: Settings_def)
    then show ?thesis using llm_field_errors[OF assms, where k=0] h by simp
  next
    case False
    then show ?thesis using h f by blast
  qed
  then have "errors (fst (new L Settings kwargs n)) = []" unfolding new_errors by simp
  from new_success[OF this] obtain s n' where s: "new L Settings kwargs n = (Inr s, n')" by blast
  have "lookup_fld (cls_fields Settings) ''llm'' = Some (Fld ''llm'' (TModel LLMSettings) Required)"
    by (simp add: Settings_def)
  from new_attr[OF s this] obtain k k' v where
    "validate_field L (Fld ''llm'' (TModel LLMSettings) Required) kwargs k = (Inr v, k')"
    and v: "getattr s ''llm'' = Some v" by blast
  from llm_field_value[OF assms this(1)] v have "getp s [''llm'', ''mode''] = Some (PStr x)" by simp
  then show "\<exists>s n'. new L Settings kwargs n = (Inr s, n') \<and> getp s [''llm'', ''mode''] = Some (PStr x)"
    using s by blast
qed

theorem llm_mode_enum_witness:
  "map_of (mode_example ''openai'') ''llm'' = Some (RMap [(''mode'', RStr ''openai'')])
   \<and> ''openai'' \<in> set llm_modes
   \<and> (\<exists>s n'. new no_coercion Settings (mode_example ''openai'') module_next = (Inr s, n')
         \<and> getp s [''llm'', ''mode''] = Some (PStr ''openai''))
   \<and> map_of (mode_example ''azure'') ''llm'' = Some (RMap [(''mode'', RStr ''azure'')])
   \<and> ''azure'' \<notin> set llm_modes
   \<and> (\<exists>es n'. new no_coercion Settings (mode_example ''azure'') module_next = (Inl es, n')
         \<and> VErr [Key ''llm'', Key ''mode''] (LiteralError llm_modes) \<in> set es)"
proof -
  have a: "map_of (mode_example ''openai'') ''llm'' = Some (RMap [(''mode'', RStr ''openai'')])"
    by (simp add: mode_example_def)
  have b: "map_of [(''mode'', RStr ''openai'')] ''mode'' = Some (RStr ''openai'')" by simp
  have c: "map_of (mode_example ''azure'') ''llm'' = Some (RMap [(''mode'', RStr ''azure'')])"
    by (simp add: mode_example_def)
  have d: "map_of [(''mode'', RStr ''azure'')] ''mode'' = Some (RStr ''azure'')" by simp
  have e: "''openai'' \<in> set llm_modes" and f: "''azure'' \<notin> set llm_modes"
    by (simp_all add: llm_modes_def)
  have g: "\<forall>f \<in> set (cls_fields Settings).
      fld_name f \<noteq> ''llm'' \<longrightarrow> errors (fst (validate_field no_coercion f (mode_example ''openai'') 0)) = []"
    by (simp add: mode_example_def schema_defs cors_default_eq copy_default_def validate_literal_def)
  from llm_mode_enum[OF a b, where n=module_next and L=no_coercion] e g
  have "\<exists>s n'. new no_coercion Settings (mode_example ''openai'') module_next = (Inr s, n')
         \<and> getp s [''llm'', ''mode''] = Some (PStr ''openai'')" by blast
  moreover from llm_mode_enum[OF c d, where n=module_next and L=no_coercion] f
  have "\<exists>es n'. new no_coercion Settings (mode_example ''azure'') module_next = (Inl es, n')
         \<and> VErr [Key ''llm'', Key ''mode''] (LiteralError llm_modes) \<in> set es" by blast
  ultimately show ?thesis using a c e f by blast
qed

text \<open>
  C2. A required field that is absent makes binding fail with an error that carries the
  field's path, and nothing is constructed or retained: the result of \<open>Settings(**raw)\<close> is
  the error (no settings value comes with it), and the module that was being imported leaves
  \<open>unsafe_typed_settings\<close> unbound. A field is absent when the mapping bound by the class that
  declares it has no such key (\<^const>\<open>required_absent\<close>); when a whole required group is
  missing, the path reported is the group's.
\<close>

theorem required_field_enforced:
  assumes "required_absent Settings (RMap kwargs) path"
  shows "(\<exists>es n'. new L Settings kwargs n = (Inl es, n') \<and> VErr (map Key path) Missing \<in> set es)
    \<and> unsafe_typed_settings (snd (import_module L (Inr kwargs) boot)) = None"
proof -
  have a: "\<And>k. \<exists>es n'. new L Settings kwargs k = (Inl es, n') \<and> VErr (map Key path) Missing \<in> set es"
    using required_absent_reported[OF assms] by (intro new_failure) (simp add: new_def)
  from a[of module_next] obtain es n' where "new L Settings kwargs module_next = (Inl es, n')" by blast
  then show ?thesis using a[of n] import_module_failure by blast
qed

theorem required_field_enforced_witness:
  "required_absent Settings (RMap incomplete_example) [''server'', ''env_name'']
   \<and> required_absent Settings (RMap incomplete_example) [''data'', ''local_data_folder'']
   \<and> required_absent Settings (RMap incomplete_example) [''openai'', ''api_key'']
   \<and> (\<exists>es n'. new no_coercion Settings incomplete_example module_next = (Inl es, n')
        \<and> VErr [Key ''server'', Key ''env_name''] Missing \<in> set es
        \<and> VErr [Key ''data'', Key ''local_data_folder''] Missing \<in> set es
        \<and> VErr [Key ''openai'', Key ''api_key''] Missing \<in> set es)
   \<and> unsafe_typed_settings (snd (import_module no_coercion (Inr incomplete_example) boot)) = None"
proof -
  have a: "required_absent Settings (RMap incomplete_example) [''server'', ''env_name'']"
    by (simp add: incomplete_example_def Settings_def ServerSettings_def)
  have b: "required_absent Settings (RMap incomplete_example) [''data'', ''local_data_folder'']"
    by (simp add: incomplete_example_def Settings_def DataSettings_def)
  have c: "required_absent Settings (RMap incomplete_example) [''openai'', ''api_key'']"
    by (simp add: incomplete_example_def Settings_def OpenAISettings_def)
  from required_field_enforced[OF a, where n=module_next and L=no_coercion] required_field_enforced[OF b, where n=module_next and L=no_coercion]
    required_field_enforced[OF c, where n=module_next and L=no_coercion] a b c
  show ?thesis by auto
qed

text \<open>
  C3. Binding the end-to-end example of the specification (the base layer overlaid with the
  profile that sets the server port and selects the Redis document store) gives a settings
  tree with \<open>server.port = 9000\<close>, \<open>server.env_name = "prod"\<close>,
  \<open>documentstore.database = "redis"\<close>, \<open>documentstore.redis.host = "myredis"\<close>,
  \<open>documentstore.redis.port = 6380\<close> and \<open>documentstore.namespace\<close> at its declared
  default. The values the specification elides for the \<open>local\<close> and \<open>sagemaker\<close>
  groups are arbitrary strings.
\<close>

theorem end_to_end_example:
  "\<exists>s n'. new L Settings (merge_settings [base_layer repo file emb llm_ep emb_ep, overlay_layer]) n = (Inr s, n')
     \<and> getp s [''server'', ''port''] = Some (PInt 9000)
     \<and> getp s [''server'', ''env_name''] = Some (PStr ''prod'')
     \<and> getp s [''documentstore'', ''database''] = Some (PStr ''redis'')
     \<and> getp s [''documentstore'', ''redis'', ''host''] = Some (PStr ''myredis'')
     \<and> getp s [''documentstore'', ''redis'', ''port''] = Some (PInt 6380)
     \<and> getp s [''documentstore'', ''namespace''] = Some (PStr ''private_gpt_documents'')"
  unfolding merged_example
  by (simp add: new_def schema_defs cors_default_eq copy_default_def validate_literal_def)

text \<open>
  C4. Two settings trees built one after the other from raw mappings that give no
  \<open>server.basic_auth\<close> each hold a \<open>BasicAuthSettings\<close> made by a call of the default
  factory of its own: the two objects have different identities and the same content
  (\<open>enabled = False\<close>, \<open>secret = "secret-key"\<close>). Assigning to an attribute of one of them
  changes that instance and leaves the other instance as it was; so does every other in-place
  change (\<^const>\<open>mutate\<close> with any update of the object).
\<close>

theorem default_basic_auth_isolated:
  assumes "new L Settings kw1 n = (Inr s1, n1)" and "n1 \<le> m" and "new L Settings kw2 m = (Inr s2, m1)"
    and "map_of kw1 ''server'' = Some (RMap sm1)" and "map_of sm1 ''basic_auth'' = None"
    and "map_of kw2 ''server'' = Some (RMap sm2)" and "map_of sm2 ''basic_auth'' = None"
  shows "\<exists>a1 a2.
      getp s1 [''server'', ''basic_auth''] =
        Some (PModel a1 ''BasicAuthSettings'' [(''enabled'', PBool False), (''secret'', PStr ''secret-key'')])
    \<and> getp s2 [''server'', ''basic_auth''] =
        Some (PModel a2 ''BasicAuthSettings'' [(''enabled'', PBool False), (''secret'', PStr ''secret-key'')])
    \<and> a1 \<noteq> a2
    \<and> (\<forall>w. getp (setattr a1 ''secret'' w s1) [''server'', ''basic_auth'', ''secret''] = Some w
            \<and> setattr a1 ''secret'' w s2 = s2)
    \<and> (\<forall>w. getp (setattr a2 ''secret'' w s2) [''server'', ''basic_auth'', ''secret''] = Some w
            \<and> setattr a2 ''secret'' w s1 = s1)
    \<and> (\<forall>g. mutate a1 g s2 = s2) \<and> (\<forall>g. mutate a2 g s1 = s1)"
proof -
  from basic_auth_default_value[OF assms(1,4,5)] obtain a1 where
    p1: "getp s1 [''server'', ''basic_auth''] =
        Some (PModel a1 ''BasicAuthSettings'' [(''enabled'', PBool False), (''secret'', PStr ''secret-key'')])"
    and m1: "a1 \<in> ids s1"
    and w1: "\<And>w. getp (setattr a1 ''secret'' w s1) [''server'', ''basic_auth'', ''secret''] = Some w"
    by blast
  from basic_auth_default_value[OF assms(3,6,7)] obtain a2 where
    p2: "getp s2 [''server'', ''basic_auth''] =
        Some (PModel a2 ''BasicAuthSettings'' [(''enabled'', PBool False), (''secret'', PStr ''secret-key'')])"
    and m2: "a2 \<in> ids s2"
    and w2: "\<And>w. getp (setattr a2 ''secret'' w s2) [''server'', ''basic_auth'', ''secret''] = Some w"
    by blast
  from instances_disjoint[OF assms(1,2,3)] m1 m2 have n1: "a1 \<notin> ids s2" and n2: "a2 \<notin> ids s1" and ne: "a1 \<noteq> a2"
    by auto
  have "\<And>g. mutate a1 g s2 = s2" and "\<And>g. mutate a2 g s1 = s1"
    using n1 n2 by (simp_all add: mutate_other)
  then show ?thesis using p1 p2 ne w1 w2 by (intro exI[of _ a1] exI[of _ a2]) (simp add: setattr_def)
qed

theorem default_basic_auth_isolated_witness:
  "\<exists>s1 n1 s2 n2 a1 a2.
      new no_coercion Settings (mode_example ''mock'') module_next = (Inr s1, n1)
    \<and> new no_coercion Settings (mode_example ''mock'') n1 = (Inr s2, n2)
    \<and> map_of (mode_example ''mock'') ''server'' = Some (RMap [(''env_name'', RStr ''prod''), (''port'', RInt 8001)])
    \<and> map_of [(''env_name'', RStr ''prod''), (''port'', RInt 8001)] ''basic_auth'' = None
    \<and> getp s1 [''server'', ''basic_auth''] =
        Some (PModel a1 ''BasicAuthSettings'' [(''enabled'', PBool False), (''secret'', PStr ''secret-key'')])
    \<and> getp s2 [''server'', ''basic_auth''] =
        Some (PModel a2 ''BasicAuthSettings'' [(''enabled'', PBool False), (''secret'', PStr ''secret-key'')])
    \<and> a1 \<noteq> a2
    \<and> getp (setattr a1 ''secret'' (PStr ''changed'') s1) [''server'', ''basic_auth'', ''secret'']
          = Some (PStr ''changed'')
    \<and> setattr a1 ''secret'' (PStr ''changed'') s2 = s2"
proof -
  from new_success_any[OF mode_example_ok] obtain s1 n1 where
    s1: "new no_coercion Settings (mode_example ''mock'') module_next = (Inr s1, n1)" by blast
  from new_success_any[OF mode_example_ok] obtain s2 n2 where
    s2: "new no_coercion Settings (mode_example ''mock'') n1 = (Inr s2, n2)" by blast
  have a: "map_of (mode_example ''mock'') ''server'' = Some (RMap [(''env_name'', RStr ''prod''), (''port'', RInt 8001)])"
    by (simp add: mode_example_def)
  have b: "map_of [(''env_name'', RStr ''prod''), (''port'', RInt 8001)] ''basic_auth'' = None" by simp
  from default_basic_auth_isolated[OF s1 order_refl s2 a b a b] s1 s2 a b
  show ?thesis by blast
qed

text \<open>
  C5. Two settings trees built after the class bodies have run share no object: their
  sets of object identities are disjoint, and neither holds one of the default objects the
  class bodies created (the three list literals of \<open>CorsSettings\<close> and the
  \<open>CorsSettings(enabled=False)\<close> instance declared as the default of \<open>server.cors\<close>).
  So an in-place change of any object of one tree, or of a class-level default object, leaves
  the other tree as it was. In particular an omitted \<open>server.cors\<close> is bound to a copy of
  the declared default, made for this tree together with its lists, and an omitted
  \<open>server.cors.allow_origins\<close> is bound to a new empty list: a default given by value is
  copied for every instance when it is not hashable (\<^const>\<open>copy_default\<close>).
\<close>

theorem nested_defaults_not_shared:
  assumes "module_next \<le> n" and "new L Settings kw1 n = (Inr s1, n1)" and "n1 \<le> m"
    and "new L Settings kw2 m = (Inr s2, m1)"
  shows "ids s1 \<inter> ids s2 = {}
    \<and> ids s1 \<inter> class_default_ids = {} \<and> ids s2 \<inter> class_default_ids = {}
    \<and> (\<forall>a g. a \<in> ids s1 \<or> a \<in> class_default_ids \<longrightarrow> mutate a g s2 = s2)
    \<and> (\<forall>a g. a \<in> ids s2 \<or> a \<in> class_default_ids \<longrightarrow> mutate a g s1 = s1)
    \<and> (\<forall>sm. map_of kw1 ''server'' = Some (RMap sm) \<and> map_of sm ''cors'' = None \<longrightarrow>
          (\<exists>k. getp s1 [''server'', ''cors''] =
             Some (PModel k ''CorsSettings''
               [(''enabled'', PBool False), (''allow_credentials'', PBool False),
                (''allow_origins'', PList (Suc k) []), (''allow_origin_regex'', PNone),
                (''allow_methods'', PList (Suc (Suc k)) [PStr ''GET'']),
                (''allow_headers'', PList (Suc (Suc (Suc k))) [])])
             \<and> {k, Suc k, Suc (Suc k), Suc (Suc (Suc k))} \<subseteq> ids s1))
    \<and> (\<forall>sm cm. map_of kw2 ''server'' = Some (RMap sm) \<and> map_of sm ''cors'' = Some (RMap cm)
            \<and> map_of cm ''allow_origins'' = None \<longrightarrow>
          (\<exists>a. getp s2 [''server'', ''cors'', ''allow_origins''] = Some (PList a []) \<and> a \<in> ids s2))"
proof -
  have f1: "ids s1 \<subseteq> {n..<n1}" and f2: "ids s2 \<subseteq> {m..<m1}"
    using new_fresh[OF assms(2)] new_fresh[OF assms(4)] by auto
  have d12: "ids s1 \<inter> ids s2 = {}" using instances_disjoint[OF assms(2,3,4)] .
  have le: "n \<le> n1" using validate_fresh(1)[OF assms(2)[unfolded new_def]] by simp
  have c1: "ids s1 \<inter> class_default_ids = {}"
    using f1 class_default_ids_below assms(1) by fastforce
  have c2: "ids s2 \<inter> class_default_ids = {}"
    using f2 class_default_ids_below assms(1,3) le by fastforce
  have m2: "\<forall>a g. a \<in> ids s1 \<or> a \<in> class_default_ids \<longrightarrow> mutate a g s2 = s2"
    using d12 c2 by (auto intro: mutate_other)
  have m1: "\<forall>a g. a \<in> ids s2 \<or> a \<in> class_default_ids \<longrightarrow> mutate a g s1 = s1"
    using d12 c1 by (auto intro: mutate_other)
  show ?thesis
    using d12 c1 c2 m1 m2 default_cors[OF assms(2)] default_allow_origins[OF assms(4)] by blast
qed


theorem nested_defaults_not_shared_witness:
  "\<exists>s1 n1 s2 n2 k a.
      new no_coercion Settings (mode_example ''mock'') module_next = (Inr s1, n1)
    \<and> new no_coercion Settings cors_example n1 = (Inr s2, n2)
    \<and> ids s1 \<inter> ids s2 = {} \<and> ids s1 \<inter> class_default_ids = {} \<and> ids s2 \<inter> class_default_ids = {}
    \<and> getp s1 [''server'', ''cors''] =
             Some (PModel k ''CorsSettings''
               [(''enabled'', PBool False), (''allow_credentials'', PBool False),
                (''allow_origins'', PList (Suc k) []), (''allow_origin_regex'', PNone),
                (''allow_methods'', PList (Suc (Suc k)) [PStr ''GET'']),
                (''allow_headers'', PList (Suc (Suc (Suc k))) [])])
    \<and> getp s2 [''server'', ''cors'', ''allow_origins''] = Some (PList a [])
    \<and> list_append (Suc k) (PStr ''https://example.com'') s2 = s2
    \<and> list_append a (PStr ''https://example.com'') s1 = s1"
proof -
  from new_success_any[OF mode_example_ok] obtain s1 n1 where
    s1: "new no_coercion Settings (mode_example ''mock'') module_next = (Inr s1, n1)" by blast
  from new_success_any[OF cors_example_ok] obtain s2 n2 where
    s2: "new no_coercion Settings cors_example n1 = (Inr s2, n2)" by blast
  have a: "map_of (mode_example ''mock'') ''server'' = Some (RMap [(''env_name'', RStr ''prod''), (''port'', RInt 8001)])"
    and b: "map_of [(''env_name'', RStr ''prod''), (''port'', RInt 8001)] ''cors'' = None"
    by (simp_all add: mode_example_def)
  have c: "map_of cors_example ''server'' = Some (RMap [(''env_name'', RStr ''prod''), (''port'', RInt 8001),
                        (''cors'', RMap [(''enabled'', RBool True)])])"
    and d: "map_of [(''env_name'', RStr ''prod''), (''port'', RInt 8001),
                        (''cors'', RMap [(''enabled'', RBool True)])] ''cors'' = Some (RMap [(''enabled'', RBool True)])"
    and e: "map_of [(''enabled'', RBool True)] ''allow_origins'' = None"
    by (simp_all add: cors_example_def)
  note t = nested_defaults_not_shared[OF order_refl s1 order_refl s2]
  note tA = t[THEN conjunct1]
  note tB = t[THEN conjunct2, THEN conjunct1]
  note tC = t[THEN conjunct2, THEN conjunct2, THEN conjunct1]
  note tD = t[THEN conjunct2, THEN conjunct2, THEN conjunct2, THEN conjunct1]
  note tE = t[THEN conjunct2, THEN conjunct2, THEN conjunct2, THEN conjunct2, THEN conjunct1]
  note tF = t[THEN conjunct2, THEN conjunct2, THEN conjunct2, THEN conjunct2, THEN conjunct2, THEN conjunct1]
  note tG = t[THEN conjunct2, THEN conjunct2, THEN conjunct2, THEN conjunct2, THEN conjunct2, THEN conjunct2]
  from tF[rule_format, OF conjI[OF a b]] obtain k where k: "getp s1 [''server'', ''cors''] =
             Some (PModel k ''CorsSettings''
               [(''enabled'', PBool False), (''allow_credentials'', PBool False),
                (''allow_origins'', PList (Suc k) []), (''allow_origin_regex'', PNone),
                (''allow_methods'', PList (Suc (Suc k)) [PStr ''GET'']),
                (''allow_headers'', PList (Suc (Suc (Suc k))) [])])"
    and kin: "{k, Suc k, Suc (Suc k), Suc (Suc (Suc k))} \<subseteq> ids s1" by blast
  from tG[rule_format, OF conjI[OF c conjI[OF d e]]] obtain a where
    p: "getp s2 [''server'', ''cors'', ''allow_origins''] = Some (PList a [])"
    and ain: "a \<in> ids s2" by blast
  from kin have "Suc k \<in> ids s1" by simp
  then have x: "list_append (Suc k) (PStr ''https://example.com'') s2 = s2"
    unfolding list_append_def using tD[rule_format, of "Suc k"] by simp
  have y: "list_append a (PStr ''https://example.com'') s1 = s1"
    unfolding list_append_def using tE[rule_format, of a] ain by simp
  show ?thesis
    by (intro exI[of _ s1] exI[of _ n1] exI[of _ s2] exI[of _ n2] exI[of _ k] exI[of _ a] conjI)
       (fact s1 s2 tA tB tC k p x y)+
qed

text \<open>
  C6. Within one process the convenience function \<open>settings()\<close> and the resolution of
  \<open>Settings\<close> through the injector give the same instance, on every access and in any
  order: when the loaded mapping binds to the instance \<open>s\<close> (the object that line 265
  constructs, identities included), every event of every sequence of imports, resolutions
  and calls from a fresh process returns \<open>s\<close>; after the first event the module holds
  \<open>s\<close>, and as soon as one event went through the injector the container holds \<open>s\<close> as
  well. The injector is not among the sources at hand; it is modelled from the specification
  as a container with a state of its own, bound to the module's \<open>unsafe_typed_settings\<close>
  when it is created.
\<close>

theorem accessor_same_instance:
  assumes "new L Settings kwargs module_next = (Inr s, k)"
  shows "fst (run L (Inr kwargs) evs boot) = replicate (length evs) (Inr s)
    \<and> unsafe_typed_settings (snd (run L (Inr kwargs) evs boot)) = (if evs = [] then None else Some s)
    \<and> global_injector (snd (run L (Inr kwargs) evs boot))
        = (if \<forall>ev \<in> set evs. ev = ImportModule then None else Some s)"
proof (cases "evs = []")
  case True
  then show ?thesis by (simp add: boot_def)
next
  case False
  have "import_module L (Inr kwargs) boot
      = (Inr s, boot\<lparr>loads := 1, next_id := k, unsafe_typed_settings := Some s\<rparr>)"
    using assms by (simp add: import_module_def boot_def Let_def)
  from run_succeeding[OF this False] False show ?thesis by simp
qed

theorem accessor_same_instance_witness:
  "\<exists>s k. new no_coercion Settings (mode_example ''mock'') module_next = (Inr s, k)
      \<and> fst (run no_coercion (Inr (mode_example ''mock''))
                [CallSettings, ResolveInjector, ImportModule, CallSettings] boot)
          = [Inr s, Inr s, Inr s, Inr s]
      \<and> fst (run no_coercion (Inr (mode_example ''mock''))
                [ResolveInjector, CallSettings] boot)
          = [Inr s, Inr s]
      \<and> global_injector (snd (run no_coercion (Inr (mode_example ''mock''))
                [ResolveInjector, CallSettings] boot)) = Some s"
proof -
  from mode_example_new[where L = no_coercion] obtain s k where
    a: "new no_coercion Settings (mode_example ''mock'') module_next = (Inr s, k)" by blast
  note i1 = accessor_same_instance[OF a, of "[CallSettings, ResolveInjector, ImportModule, CallSettings]"]
  note i2 = accessor_same_instance[OF a, of "[ResolveInjector, CallSettings]"]
  have b: "fst (run no_coercion (Inr (mode_example ''mock''))
                [CallSettings, ResolveInjector, ImportModule, CallSettings] boot)
          = [Inr s, Inr s, Inr s, Inr s]"
    using i1[THEN conjunct1] by simp
  have c: "fst (run no_coercion (Inr (mode_example ''mock'')) [ResolveInjector, CallSettings] boot)
          = [Inr s, Inr s]"
    using i2[THEN conjunct1] by simp
  have d: "global_injector (snd (run no_coercion (Inr (mode_example ''mock''))
                [ResolveInjector, CallSettings] boot)) = Some s"
    using i2[THEN conjunct2, THEN conjunct2] by simp
  from a b c d show ?thesis by blast
qed

text \<open>
  C7. The specification describes a lazily initialised accessor that runs the load pipeline
  at most once, at the first access, and caches a failure. The source loads at module level:
  \<open>unsafe_settings = load_active_settings()\<close> and \<open>Settings(**unsafe_settings)\<close> run when
  the module is imported, whether or not anything is accessed, and nothing records a failure.
  What holds, from a fresh process, for every sequence of imports and accesses and for every
  schedule of threads that issue them at once: when loading and binding succeed, the
  pipeline has run exactly once as soon as one event has happened, at most once under every
  schedule, every event that returns (a concurrent first access included) yields the same
  instance, the one bound from the loaded mapping, and none returns before the module holds
  that instance, so that no access triggers a second load or observes an intermediate state;
  when they fail, the module is not registered, so every event runs the pipeline again and
  raises an equal error, also under every schedule, where each failed event stands for one
  run of the pipeline. The last theorem shows the two points on which the description fails:
  an import alone runs the pipeline, and two accesses under a failing loader run it twice.
\<close>

theorem load_runs_on_import:
  "(case fst (import_module L env boot) of
      Inr s \<Rightarrow> loads (snd (run L env evs boot)) = (if evs = [] then 0 else 1)
               \<and> fst (run L env evs boot) = replicate (length evs) (Inr s)
               \<and> loads (snd (interleave L env sch boot)) \<le> 1
               \<and> (\<forall>x \<in> set (fst (interleave L env sch boot)). snd x = Inr s)
               \<and> (fst (interleave L env sch boot) \<noteq> []
                    \<longrightarrow> loads (snd (interleave L env sch boot)) = 1
                        \<and> unsafe_typed_settings (snd (interleave L env sch boot)) = Some s)
    | Inl e \<Rightarrow> loads (snd (run L env evs boot)) = length evs
               \<and> fst (run L env evs boot) = replicate (length evs) (Inl e)
               \<and> unsafe_typed_settings (snd (interleave L env sch boot)) = None
               \<and> (\<forall>x \<in> set (fst (interleave L env sch boot)). snd x = Inl e)
               \<and> loads (snd (interleave L env sch boot))
                   = length (fst (interleave L env sch boot)) + pending (snd (interleave L env sch boot)))"
proof (cases "fst (import_module L env boot)")
  case (Inl e)
  have "unsafe_typed_settings boot = None" and "global_injector boot = None" by (simp_all add: boot_def)
  from run_failing[OF Inl this, of evs]
  have a: "loads (snd (run L env evs boot)) = length evs"
    and b: "fst (run L env evs boot) = replicate (length evs) (Inl e)" by (simp_all add: boot_def)
  have "unsafe_typed_settings boot = None \<and> global_injector boot = None
      \<and> (\<forall>t kw'. importing boot = Some (t, Some kw') \<longrightarrow> env = Inr kw')" by (simp add: boot_def)
  from interleave_failure[OF Inl this, of sch]
  have c: "unsafe_typed_settings (snd (interleave L env sch boot)) = None"
    and d: "\<forall>x \<in> set (fst (interleave L env sch boot)). snd x = Inl e"
    and e: "loads (snd (interleave L env sch boot))
        = length (fst (interleave L env sch boot)) + pending (snd (interleave L env sch boot))"
    by (simp_all add: boot_def pending_def)
  from a b c d e show ?thesis using Inl by simp
next
  case (Inr s)
  obtain p1 where im: "import_module L env boot = (Inr s, p1)"
    using Inr by (cases "import_module L env boot") auto
  have a: "loads (snd (run L env evs boot)) = (if evs = [] then 0 else 1)"
    and b: "fst (run L env evs boot) = replicate (length evs) (Inr s)"
    using run_succeeding[OF im, of evs] by (cases "evs = []"; simp add: boot_def)+
  from im obtain kw k where env: "env = Inr kw" and new: "new L Settings kw module_next = (Inr s, k)"
    by (cases env) (auto simp: import_module_def boot_def Let_def split: sum.splits prod.splits)
  let ?p = "snd (interleave L (Inr kw) sch boot)"
  have "(unsafe_typed_settings boot = None \<and> next_id boot = 0 \<and> global_injector boot = None
           \<and> loads boot = pending boot
           \<and> (\<forall>t kw'. importing boot = Some (t, Some kw') \<longrightarrow> kw' = kw))
        \<or> (unsafe_typed_settings boot = Some s
           \<and> (global_injector boot = None \<or> global_injector boot = Some s) \<and> loads boot = 1)"
    by (simp add: boot_def pending_def)
  note il = interleave_success[OF new this, of sch]
  have c: "loads ?p \<le> 1" using il[THEN conjunct1] by (auto simp: pending_def split: option.splits)
  have d: "\<forall>x \<in> set (fst (interleave L (Inr kw) sch boot)). snd x = Inr s"
    using il[THEN conjunct2, THEN conjunct1] .
  have u: "fst (interleave L (Inr kw) sch boot) \<noteq> [] \<longrightarrow> unsafe_typed_settings ?p = Some s"
    using il[THEN conjunct2, THEN conjunct2] by simp
  have l: "unsafe_typed_settings ?p = Some s \<longrightarrow> loads ?p = 1" using il[THEN conjunct1] by auto
  from a b c d u l show ?thesis using Inr env by simp
qed

theorem load_runs_on_import_witness:
  "\<exists>s. fst (import_module no_coercion (Inr (mode_example ''mock'')) boot) = Inr s
     \<and> fst (run no_coercion (Inr (mode_example ''mock'')) [ImportModule, CallSettings] boot)
         = [Inr s, Inr s]
     \<and> fst (interleave no_coercion (Inr (mode_example ''mock''))
              [(0, CallSettings), (1, ResolveInjector), (0, CallSettings), (1, ResolveInjector),
               (0, CallSettings), (1, ResolveInjector), (0, CallSettings)] boot)
         = [(1, Inr s), (0, Inr s)]
     \<and> loads (snd (interleave no_coercion (Inr (mode_example ''mock''))
              [(0, CallSettings), (1, ResolveInjector), (0, CallSettings), (1, ResolveInjector),
               (0, CallSettings), (1, ResolveInjector), (0, CallSettings)] boot)) = 1
     \<and> fst (run no_coercion (Inl ''no base profile'') [CallSettings, ImportModule] boot)
         = [Inl (LoadFailed ''no base profile''), Inl (LoadFailed ''no base profile'')]
     \<and> fst (interleave no_coercion (Inl ''no base profile'')
              [(0, CallSettings), (1, ResolveInjector), (0, CallSettings), (1, ResolveInjector),
               (1, ResolveInjector)] boot)
         = [(0, Inl (LoadFailed ''no base profile'')), (1, Inl (LoadFailed ''no base profile''))]
     \<and> loads (snd (interleave no_coercion (Inl ''no base profile'')
              [(0, CallSettings), (1, ResolveInjector), (0, CallSettings), (1, ResolveInjector),
               (1, ResolveInjector)] boot)) = 2"
proof -
  let ?env = "Inr (mode_example ''mock'') :: string + (string \<times> raw) list"
  let ?bad = "Inl ''no base profile'' :: string + (string \<times> raw) list"
  let ?sch = "[(0, CallSettings), (1, ResolveInjector), (0, CallSettings), (1, ResolveInjector),
               (0, CallSettings), (1, ResolveInjector), (0, CallSettings)] :: (thread \<times> event) list"
  let ?sch2 = "[(0, CallSettings), (1, ResolveInjector), (0, CallSettings), (1, ResolveInjector),
               (1, ResolveInjector)] :: (thread \<times> event) list"
  from mode_example_new[where L = no_coercion] obtain s k where
    new: "new no_coercion Settings (mode_example ''mock'') module_next = (Inr s, k)" by blast
  have im: "fst (import_module no_coercion ?env boot) = Inr s"
    using new by (simp add: import_module_def boot_def Let_def)
  have ids: "map fst (fst (interleave no_coercion ?env ?sch boot)) = [1, 0]"
    using new by (simp add: tick_def boot_def Let_def settings_def injector_get_def import_module_def)
  note ok = load_runs_on_import[of no_coercion ?env "[ImportModule, CallSettings]" ?sch, unfolded im sum.case]
  have r: "fst (run no_coercion ?env [ImportModule, CallSettings] boot) = [Inr s, Inr s]"
    using ok[THEN conjunct2, THEN conjunct1] by simp
  from ids obtain x y where xy: "fst (interleave no_coercion ?env ?sch boot) = [x, y]"
    and f: "fst x = 1" "fst y = 0" by auto
  from ok[THEN conjunct2, THEN conjunct2, THEN conjunct2, THEN conjunct1] xy
  have "snd x = Inr s" and "snd y = Inr s" by simp_all
  then have i: "fst (interleave no_coercion ?env ?sch boot) = [(1, Inr s), (0, Inr s)]"
    using xy f by (cases x; cases y) simp
  have l: "loads (snd (interleave no_coercion ?env ?sch boot)) = 1"
    using ok[THEN conjunct2, THEN conjunct2, THEN conjunct2, THEN conjunct2] i by simp
  have bad: "fst (import_module no_coercion ?bad boot) = Inl (LoadFailed ''no base profile'')"
    by (simp add: import_module_def boot_def Let_def)
  note ko = load_runs_on_import[of no_coercion ?bad "[CallSettings, ImportModule]" ?sch2, unfolded bad sum.case]
  have r2: "fst (run no_coercion ?bad [CallSettings, ImportModule] boot)
         = [Inl (LoadFailed ''no base profile''), Inl (LoadFailed ''no base profile'')]"
    using ko[THEN conjunct2, THEN conjunct1] by simp
  have ids2: "map fst (fst (interleave no_coercion ?bad ?sch2 boot)) = [0, 1]
      \<and> pending (snd (interleave no_coercion ?bad ?sch2 boot)) = 0"
    by (simp add: tick_def boot_def Let_def pending_def)
  then obtain x2 y2 where xy2: "fst (interleave no_coercion ?bad ?sch2 boot) = [x2, y2]"
    and f2: "fst x2 = 0" "fst y2 = 1" by auto
  from ko[THEN conjunct2, THEN conjunct2, THEN conjunct2, THEN conjunct1] xy2
  have "snd x2 = Inl (LoadFailed ''no base profile'')" and "snd y2 = Inl (LoadFailed ''no base profile'')"
    by simp_all
  then have i2: "fst (interleave no_coercion ?bad ?sch2 boot)
         = [(0, Inl (LoadFailed ''no base profile'')), (1, Inl (LoadFailed ''no base profile''))]"
    using xy2 f2 by (cases x2; cases y2) simp
  have l2: "loads (snd (interleave no_coercion ?bad ?sch2 boot)) = 2"
    using ko[THEN conjunct2, THEN conjunct2, THEN conjunct2, THEN conjunct2] ids2 xy2 by simp
  from im r i l r2 i2 l2 show ?thesis by blast
qed

theorem lazy_cached_load_counterexample:
  "loads (snd (step no_coercion (Inr (mode_example ''mock'')) ImportModule boot)) = 1
   \<and> loads (snd (run no_coercion (Inl ''no base profile'') [CallSettings, CallSettings] boot)) = 2"
proof -
  let ?env = "Inr (mode_example ''mock'') :: string + (string \<times> raw) list"
  from mode_example_import[where L = no_coercion] obtain s p1
    where a: "import_module no_coercion ?env boot = (Inr s, p1)" by blast
  have "loads p1 = Suc (loads boot)" using import_first_load[OF _ a] by (simp add: boot_def)
  then have "loads (snd (step no_coercion ?env ImportModule boot)) = 1" using a by (simp add: boot_def)
  moreover have "loads (snd (run no_coercion (Inl ''no base profile'') [CallSettings, CallSettings] boot)) = 2"
    by (simp add: settings_def injector_get_def import_module_def boot_def Let_def)
  ultimately show ?thesis by simp
qed

text \<open>
  C8. \<open>qdrant\<close> is the only field of \<open>Settings\<close> that declares a default. When the raw
  mapping has no \<open>qdrant\<close> key, no error is reported for it (binding succeeds whenever
  the rest of the mapping binds) and the bound value is \<open>None\<close>. When the key holds a
  mapping, the bound value is a \<open>QdrantSettings\<close> instance in which every field the
  mapping leaves out has its declared default: \<open>port = 6333\<close>, \<open>grpc_port = 6334\<close>,
  \<open>prefer_grpc = False\<close>, \<open>force_disable_check_same_thread = True\<close> and \<open>None\<close> for the
  others; no field of the class is required, so the empty mapping binds to the defaults.
  (A key that holds \<open>null\<close> binds to \<open>None\<close>, as the type \<open>QdrantSettings | None\<close> allows.)
\<close>

theorem qdrant_optional_group:
  "map fld_name (filter (\<lambda>f. fld_dflt f \<noteq> Required) (cls_fields Settings)) = [''qdrant'']
   \<and> (map_of kwargs ''qdrant'' = None \<longrightarrow>
         (\<forall>e \<in> set (errors (fst (new L Settings kwargs n))). \<forall>l t. e \<noteq> VErr (Key ''qdrant'' # l) t)
       \<and> (\<forall>s n'. new L Settings kwargs n = (Inr s, n') \<longrightarrow> getattr s ''qdrant'' = Some PNone))
   \<and> (\<forall>q s n'. map_of kwargs ''qdrant'' = Some (RMap q) \<and> new L Settings kwargs n = (Inr s, n') \<longrightarrow>
         (\<exists>a kvs. getattr s ''qdrant'' = Some (PModel a ''QdrantSettings'' kvs)
            \<and> (\<forall>(name, d) \<in> set qdrant_defaults. map_of q name = None \<longrightarrow> map_of kvs name = Some d)))
   \<and> new L QdrantSettings [] k = (Inr (PModel k ''QdrantSettings'' qdrant_defaults), Suc k)"
  using only_qdrant_optional qdrant_omitted_errors[where kwargs=kwargs and n=n] qdrant_omitted_value[where kwargs=kwargs and n=n]
    qdrant_present_value[where kwargs=kwargs and n=n] qdrant_all_defaults[where k=k]
  by blast

theorem qdrant_optional_group_witness:
  "map_of (mode_example ''mock'') ''qdrant'' = None
   \<and> (\<exists>s n'. new no_coercion Settings (mode_example ''mock'') module_next = (Inr s, n')
         \<and> getattr s ''qdrant'' = Some PNone)
   \<and> map_of qdrant_example ''qdrant'' = Some (RMap [(''url'', RStr ''http://qdrant:6333'')])
   \<and> (\<exists>s n' a kvs. new no_coercion Settings qdrant_example module_next = (Inr s, n')
         \<and> getattr s ''qdrant'' = Some (PModel a ''QdrantSettings'' kvs)
         \<and> map_of kvs ''port'' = Some (PInt 6333)
         \<and> map_of kvs ''grpc_port'' = Some (PInt 6334)
         \<and> map_of kvs ''timeout'' = Some PNone)"
proof -
  have a: "map_of (mode_example ''mock'') ''qdrant'' = None" by (simp add: mode_example_def)
  have b: "map_of qdrant_example ''qdrant'' = Some (RMap [(''url'', RStr ''http://qdrant:6333'')])"
    by (simp add: qdrant_example_def mode_example_def)
  from mode_example_new obtain s1 n1 where s1: "new no_coercion Settings (mode_example ''mock'') module_next = (Inr s1, n1)"
    by blast
  from qdrant_example_new obtain s2 n2 where s2: "new no_coercion Settings qdrant_example module_next = (Inr s2, n2)"
    by blast
  from qdrant_optional_group[where kwargs="mode_example ''mock''" and n=module_next and L=no_coercion] a s1
  have c: "getattr s1 ''qdrant'' = Some PNone" by blast
  from qdrant_optional_group[where kwargs=qdrant_example and n=module_next and L=no_coercion] b s2
  obtain a2 kvs where d: "getattr s2 ''qdrant'' = Some (PModel a2 ''QdrantSettings'' kvs)"
    and e: "\<forall>(name, d) \<in> set qdrant_defaults.
              map_of [(''url'', RStr ''http://qdrant:6333'')] name = None \<longrightarrow> map_of kvs name = Some d"
    by blast
  from e have "map_of kvs ''port'' = Some (PInt 6333)" "map_of kvs ''grpc_port'' = Some (PInt 6334)"
    "map_of kvs ''timeout'' = Some PNone"
    by (simp_all add: qdrant_defaults_def)
  then show ?thesis using a b c d s1 s2 by blast
qed

text \<open>
  C9. The specification lists the \<open>database\<close> discriminators of the document store and
  of the index store among the required fields. The source declares both with \<open>Field(default="disk")\<close>:
  for a mapping that supplies the \<open>documentstore\<close> or \<open>indexstore\<close> group without a
  \<open>database\<close> key, no error is reported at that key, and wherever the mapping binds the
  bound discriminator is \<open>"disk"\<close>. The first theorem is
  the statement that holds, for every raw mapping; the last one evaluates the binder on a
  mapping whose two groups are empty, where a required field would make binding fail.
\<close>

theorem store_database_defaults_to_disk:
  assumes "g = ''documentstore'' \<or> g = ''indexstore''"
    and "map_of kwargs g = Some (RMap gm)" and "map_of gm ''database'' = None"
  shows "(\<forall>e \<in> set (errors (fst (new L Settings kwargs n))). \<forall>t. e \<noteq> VErr [Key g, Key ''database''] t)
     \<and> (\<forall>s n'. new L Settings kwargs n = (Inr s, n') \<longrightarrow> getp s [g, ''database''] = Some (PStr ''disk''))"
proof (intro conjI ballI allI impI)
  fix e t assume "e \<in> set (errors (fst (new L Settings kwargs n)))"
  from database_key_no_error[OF assms this] show "e \<noteq> VErr [Key g, Key ''database''] t" .
next
  fix s n' assume s: "new L Settings kwargs n = (Inr s, n')"
  from assms(1) show "getp s [g, ''database''] = Some (PStr ''disk'')"
  proof
    assume g: "g = ''documentstore''"
    show ?thesis
      using group_database_default[OF s lookup_documentstore lookup_documentstore_database
          assms(2)[unfolded g] assms(3)] g by simp
  next
    assume g: "g = ''indexstore''"
    show ?thesis
      using group_database_default[OF s lookup_indexstore lookup_indexstore_database
          assms(2)[unfolded g] assms(3)] g by simp
  qed
qed

theorem store_database_defaults_to_disk_witness:
  "(\<exists>s n'. new no_coercion Settings (mode_example ''mock'') module_next = (Inr s, n')
       \<and> getp s [''documentstore'', ''database''] = Some (PStr ''disk'')
       \<and> getp s [''indexstore'', ''database''] = Some (PStr ''disk''))
   \<and> map_of (mode_example ''mock'') ''documentstore'' = Some (RMap [])
   \<and> map_of (mode_example ''mock'') ''indexstore'' = Some (RMap [])
   \<and> map_of [] ''database'' = (None :: raw option)"
proof -
  from mode_example_new obtain s n' where s: "new no_coercion Settings (mode_example ''mock'') module_next = (Inr s, n')"
    by blast
  have a: "map_of (mode_example ''mock'') ''documentstore'' = Some (RMap [])"
    and b: "map_of (mode_example ''mock'') ''indexstore'' = Some (RMap [])"
    by (simp_all add: mode_example_def)
  have c: "map_of [] ''database'' = (None :: raw option)" by simp
  have "getp s [''documentstore'', ''database''] = Some (PStr ''disk'')"
    using store_database_defaults_to_disk[OF _ a c, where n=module_next and L=no_coercion] s by simp
  moreover have "getp s [''indexstore'', ''database''] = Some (PStr ''disk'')"
    using store_database_defaults_to_disk[OF _ b c, where n=module_next and L=no_coercion] s by simp
  ultimately show ?thesis using s a b by auto
qed

theorem store_database_required_counterexample:
  "map_of (mode_example ''mock'') ''documentstore'' = Some (RMap [])
   \<and> map_of (mode_example ''mock'') ''indexstore'' = Some (RMap [])
   \<and> \<not> isl (fst (new no_coercion Settings (mode_example ''mock'') module_next))
   \<and> getp (projr (fst (new no_coercion Settings (mode_example ''mock'') module_next))) [''documentstore'', ''database'']
       = Some (PStr ''disk'')
   \<and> getp (projr (fst (new no_coercion Settings (mode_example ''mock'') module_next))) [''indexstore'', ''database'']
       = Some (PStr ''disk'')"
  by (simp add: new_def mode_example_def schema_defs cors_default_eq copy_default_def
      validate_literal_def module_next_def)

text \<open>
  C10. When the raw mapping gives no value for \<open>server.cors.allow_origin_regex\<close> (the
  \<open>cors\<close> group is omitted, or it is a mapping without that key), the bound field is
  \<open>None\<close>, not an empty list, although its declared type is \<open>list[str]\<close>: the declared
  default \<open>None\<close> is applied without being validated against the type.
\<close>

theorem allow_origin_regex_none:
  assumes "new L Settings kwargs n = (Inr s, n')"
    and "map_of kwargs ''server'' = Some (RMap sm)"
    and "map_of sm ''cors'' = None
         \<or> (\<exists>cm. map_of sm ''cors'' = Some (RMap cm) \<and> map_of cm ''allow_origin_regex'' = None)"
  shows "getp s [''server'', ''cors'', ''allow_origin_regex''] = Some PNone"
proof -
  from attr_present[OF assms(1)[unfolded new_def] lookup_server assms(2)] obtain k k' v where
    v: "validate L (TModel ServerSettings) (RMap sm) k = (Inr v, k')" and sv: "getattr s ''server'' = Some v"
    by auto
  from assms(3) have "\<exists>c. getattr v ''cors'' = Some c \<and> getattr c ''allow_origin_regex'' = Some PNone"
  proof
    assume "map_of sm ''cors'' = None"
    from attr_default[OF v lookup_cors this] show ?thesis
      by (auto simp: copy_cors_default)
  next
    assume "\<exists>cm. map_of sm ''cors'' = Some (RMap cm) \<and> map_of cm ''allow_origin_regex'' = None"
    then obtain cm where cm: "map_of sm ''cors'' = Some (RMap cm)"
      and no: "map_of cm ''allow_origin_regex'' = None" by blast
    from attr_present[OF v lookup_cors cm] obtain j j' c where
      c: "validate L (TModel CorsSettings) (RMap cm) j = (Inr c, j')" and vc: "getattr v ''cors'' = Some c"
      by auto
    from attr_default[OF c lookup_regex no] have "getattr c ''allow_origin_regex'' = Some PNone"
      by (auto simp: copy_default_hashable)
    then show ?thesis using vc by blast
  qed
  then show ?thesis using sv by auto
qed

theorem allow_origin_regex_none_witness:
  "(\<exists>s n'. new no_coercion Settings (mode_example ''mock'') module_next = (Inr s, n')
       \<and> getp s [''server'', ''cors'', ''allow_origin_regex''] = Some PNone)
   \<and> map_of (mode_example ''mock'') ''server'' = Some (RMap [(''env_name'', RStr ''prod''), (''port'', RInt 8001)])
   \<and> map_of [(''env_name'', RStr ''prod''), (''port'', RInt 8001)] ''cors'' = None"
proof -
  from mode_example_new obtain s n' where s: "new no_coercion Settings (mode_example ''mock'') module_next = (Inr s, n')"
    by blast
  have a: "map_of (mode_example ''mock'') ''server'' = Some (RMap [(''env_name'', RStr ''prod''), (''port'', RInt 8001)])"
    by (simp add: mode_example_def)
  have b: "map_of [(''env_name'', RStr ''prod''), (''port'', RInt 8001)] ''cors'' = None" by simp
  from allow_origin_regex_none[OF s a] b have "getp s [''server'', ''cors'', ''allow_origin_regex''] = Some PNone"
    by blast
  then show ?thesis using s a b by blast
qed

end
